theory Spec2Isabelle
  imports Complex_Main "HOL-Library.Multiset" "HOL-Library.Log_Nat"
begin

section \<open>The store\<close>

text \<open>
  The program keeps its tasks in three relations created by \<^verbatim>\<open>init_database\<close>; the two
  that the task handlers read and write are modelled here. A string is a list of
  characters, a character being a code point below 256; the character of code \<open>0\<close>, which
  the driver does not pass to the store, is left out of account. A uuid is modelled by the
  text the store prints for it, thirty-two lower-case hexadecimal digits in five groups,
  which is also how the Python side holds it (\<^verbatim>\<open>session['user_id'] = str(user['id'])\<close>); two
  uuids are equal when these texts are. A text that a request supplies for a uuid is
  another matter: the store reads it with the input function of the type, \<open>uuid_in\<close> below.
  A \<^verbatim>\<open>TIMESTAMP\<close> (and a naive Python \<^verbatim>\<open>datetime\<close>) is the number of microseconds since
  midnight of the first day of the calendar; both types have that resolution and no time
  zone. A nullable column is an \<open>option\<close>.

  The columns are named as the queries name them, \<^verbatim>\<open>t.completed\<close> becoming \<open>t_completed\<close> and
  \<^verbatim>\<open>c.id\<close> becoming \<open>c_id\<close>. The column \<^verbatim>\<open>completed\<close> is declared without \<^verbatim>\<open>NOT NULL\<close>, but
  no statement of the program writes a null into it: an insert leaves it to its default
  \<^verbatim>\<open>FALSE\<close> and the one update writes the Python boolean \<^verbatim>\<open>not task[0]\<close>. The same holds for
  \<^verbatim>\<open>user_id\<close>, \<^verbatim>\<open>created_at\<close> and \<^verbatim>\<open>updated_at\<close>.
\<close>

type_synonym uuid = string
type_synonym timestamp = int

record category =
  c_id :: uuid
  c_user_id :: uuid
  c_name :: string
  c_color :: string
  c_icon :: string
  c_created_at :: timestamp

record task =
  t_id :: int
  t_user_id :: uuid
  t_title :: string
  t_description :: "string option"
  t_category_id :: "uuid option"
  t_priority :: "string option"
  t_due_date :: "timestamp option"
  t_completed :: bool
  t_completed_at :: "timestamp option"
  t_created_at :: timestamp
  t_updated_at :: timestamp

text \<open>
  \<open>tasks_id_seq\<close> is the sequence behind \<^verbatim>\<open>id SERIAL\<close>: the next identity an insert will
  take.
\<close>

record database =
  categories :: "category list"
  tasks :: "task list"
  tasks_id_seq :: int

text \<open>
  What a request finds around it: whether \<^verbatim>\<open>psycopg2.connect\<close> succeeds, the content of the
  store, the reading of the application's clock (\<^verbatim>\<open>datetime.now()\<close>) and the reading of the
  store's clock (\<^verbatim>\<open>CURRENT_TIMESTAMP\<close>). One call is modelled at one instant: every reading of
  a clock within it gives the same value.
\<close>

record world =
  reachable :: bool
  db :: database
  datetime_now :: timestamp
  current_timestamp :: timestamp

definition get_db_connection :: "world \<Rightarrow> database option" where
  "get_db_connection w = (if reachable w then Some (db w) else None)"

text \<open>
  The exceptions that the modelled functions can meet: calling \<^verbatim>\<open>cursor\<close> on the \<^verbatim>\<open>None\<close> that
  \<^verbatim>\<open>get_db_connection\<close> returned, a due date that \<^verbatim>\<open>datetime.fromisoformat\<close> rejects, a
  template that reads a field of a user who is \<^verbatim>\<open>None\<close>, and the three errors of the store: a
  text that is no uuid where the statement needs one, a string too long for its column, and
  a reference to a category that does not exist.
\<close>

datatype error =
  AttributeError
| ValueError
| UndefinedError
| InvalidTextRepresentation
| StringDataRightTruncation
| ForeignKeyViolation

text \<open>
  How the store reads a text as a uuid: an opening brace or none, sixteen pairs of
  hexadecimal digits in either case, a hyphen being allowed after every second pair but
  the last, the closing brace if there was an opening one, and nothing after it. Every
  other text is refused. \<open>uuid_pairs n\<close> reads the last \<open>n\<close> pairs; \<open>uuid_out\<close> is the text
  the store prints.
\<close>

definition isxdigit :: "char \<Rightarrow> bool" where
  "isxdigit c = (c \<in> set ''0123456789abcdefABCDEF'')"

definition tolower :: "char \<Rightarrow> char" where
  "tolower c = (case map_of (zip ''ABCDEF'' ''abcdef'') c of None \<Rightarrow> c | Some l \<Rightarrow> l)"

fun uuid_pairs :: "nat \<Rightarrow> string \<Rightarrow> (string \<times> string) option" where
  "uuid_pairs 0 src = Some ([], src)"
| "uuid_pairs (Suc n) src =
     (case src of
        a # b # rest \<Rightarrow>
          if isxdigit a \<and> isxdigit b then
            map_option (\<lambda>(digits, src'). (tolower a # tolower b # digits, src'))
              (uuid_pairs n (case rest of
                               [] \<Rightarrow> rest
                             | c # rest' \<Rightarrow> if c = CHR ''-'' \<and> even n \<and> 0 < n then rest' else rest))
          else None
      | _ \<Rightarrow> None)"

definition uuid_out :: "string \<Rightarrow> uuid" where
  "uuid_out digits =
     take 8 digits @ ''-'' @ take 4 (drop 8 digits) @ ''-'' @ take 4 (drop 12 digits) @ ''-''
       @ take 4 (drop 16 digits) @ ''-'' @ drop 20 digits"

definition uuid_in :: "string \<Rightarrow> uuid option" where
  "uuid_in source =
     (let braces = (case source of [] \<Rightarrow> False | c # _ \<Rightarrow> c = CHR ''{'');
          src = (if braces then tl source else source)
      in case uuid_pairs 16 src of
           None \<Rightarrow> None
         | Some (digits, rest) \<Rightarrow>
             if rest = (if braces then ''}'' else []) then Some (uuid_out digits) else None)"

section \<open>The task listing\<close>

text \<open>
  A row of the listing is a task with the display fields of its category, which are null
  when the left join found no category.
\<close>

record task_row =
  row_task :: task
  category_name :: "string option"
  category_color :: "string option"
  category_icon :: "string option"

text \<open>
  \<^verbatim>\<open>FROM tasks t LEFT JOIN categories c ON t.category_id = c.id\<close>: every task with every
  category whose id it references, and once with no category when there is none. A null
  \<^verbatim>\<open>category_id\<close> equals nothing.
\<close>

definition left_join :: "task list \<Rightarrow> category list \<Rightarrow> (task \<times> category option) list" where
  "left_join ts cs =
     concat (map (\<lambda>t. case filter (\<lambda>c. t_category_id t = Some (c_id c)) cs of
                         [] \<Rightarrow> [(t, None)]
                       | ms \<Rightarrow> map (\<lambda>c. (t, Some c)) ms) ts)"

text \<open>Python's truth value of an optional string: \<^verbatim>\<open>None\<close> and \<^verbatim>\<open>''\<close> are false.\<close>

definition truthy :: "string option \<Rightarrow> bool" where
  "truthy s = (case s of None \<Rightarrow> False | Some v \<Rightarrow> v \<noteq> [])"

text \<open>
  The condition that the \<^verbatim>\<open>if\<close>/\<^verbatim>\<open>elif\<close> chain of \<^verbatim>\<open>get_user_tasks\<close> appends to the query.
  A comparison with a null \<^verbatim>\<open>due_date\<close> is not true, so the row is dropped.
\<close>

definition status_clause :: "timestamp \<Rightarrow> string option \<Rightarrow> task \<Rightarrow> bool" where
  "status_clause ts filter_param t =
     (if filter_param = Some ''pending'' then t_completed t = False
      else if filter_param = Some ''completed'' then t_completed t = True
      else if filter_param = Some ''overdue'' then
        t_completed t = False \<and> (case t_due_date t of None \<Rightarrow> False | Some d \<Rightarrow> d < ts)
      else True)"

text \<open>
  The value that \<^verbatim>\<open>AND c.id = %s\<close> compares with. The clause is appended when
  \<^verbatim>\<open>category_param\<close> is true, and the store then reads the text of the parameter as a uuid:
  a text that is none makes \<^verbatim>\<open>cur.execute\<close> raise, whatever the tables hold.
\<close>

definition category_value :: "string option \<Rightarrow> error + uuid option" where
  "category_value category_param =
     (if truthy category_param then
        (case uuid_in (case category_param of None \<Rightarrow> [] | Some v \<Rightarrow> v) of
           None \<Rightarrow> Inl InvalidTextRepresentation
         | Some k \<Rightarrow> Inr (Some k))
      else Inr None)"

text \<open>\<^verbatim>\<open>AND c.id = %s\<close>, when it is appended; a null \<^verbatim>\<open>c.id\<close> equals nothing.\<close>

definition category_clause :: "uuid option \<Rightarrow> category option \<Rightarrow> bool" where
  "category_clause category c =
     (case category of
        None \<Rightarrow> True
      | Some k \<Rightarrow> (case c of None \<Rightarrow> False | Some c' \<Rightarrow> c_id c' = k))"

definition make_row :: "task \<times> category option \<Rightarrow> task_row" where
  "make_row tc = \<lparr> row_task = fst tc,
                   category_name = map_option c_name (snd tc),
                   category_color = map_option c_color (snd tc),
                   category_icon = map_option c_icon (snd tc) \<rparr>"

text \<open>
  \<^verbatim>\<open>ORDER BY t.created_at DESC\<close>. The store promises no order among rows created at the same
  time; the model keeps them in the order of the table, and no theorem below depends on it.
\<close>

definition order_by_created_at_desc :: "(task \<times> category option) list \<Rightarrow> (task \<times> category option) list" where
  "order_by_created_at_desc rows = sort_key (\<lambda>tc. - t_created_at (fst tc)) rows"

text \<open>
  \<^verbatim>\<open>get_user_tasks\<close>: the empty list without a connection, and otherwise what the query
  gives, or the exception with which the store refuses it. The owner is the uuid that
  the session holds, in the text the store printed for it.
\<close>

definition get_user_tasks :: "world \<Rightarrow> uuid \<Rightarrow> string option \<Rightarrow> string option \<Rightarrow> error + task_row list" where
  "get_user_tasks w user_id filter_param category_param =
     (case get_db_connection w of
        None \<Rightarrow> Inr []
      | Some conn \<Rightarrow>
          (case category_value category_param of
             Inl e \<Rightarrow> Inl e
           | Inr category \<Rightarrow>
               Inr (map make_row
                      (order_by_created_at_desc
                         (filter (\<lambda>tc. t_user_id (fst tc) = user_id
                                       \<and> status_clause (current_timestamp w) filter_param (fst tc)
                                       \<and> category_clause category (snd tc))
                            (left_join (tasks conn) (categories conn)))))))"

section \<open>Python numbers\<close>

text \<open>
  A Python \<^verbatim>\<open>float\<close> is an IEEE 754 double. It is modelled by the rational number it denotes;
  the values that arise here are finite, so infinities and NaN have no part, and no value
  exceeds the range of a double. \<open>to_double\<close> is the rounding every float operation ends
  with: to the nearest number with a 53-bit significand, a tie going to the even one, with
  the exponent held at \<open>-1074\<close> for the subnormal numbers.
\<close>

definition round_half_even :: "rat \<Rightarrow> int" where
  "round_half_even x =
     (let f = \<lfloor>x\<rfloor>; r = x - of_int f
      in if r < 1 / 2 then f else if 1 / 2 < r then f + 1 else if even f then f else f + 1)"

text \<open>The exponent of a positive rational: the integer \<open>k\<close> with \<open>2\<^sup>k \<le> x < 2\<^sup>k\<^sup>+\<^sup>1\<close>.\<close>

definition ilog2 :: "rat \<Rightarrow> int" where
  "ilog2 x = (if 1 \<le> x then bitlen \<lfloor>x\<rfloor> - 1 else - bitlen (\<lceil>1 / x\<rceil> - 1))"

definition to_double :: "rat \<Rightarrow> rat" where
  "to_double x =
     (if x = 0 then 0
      else let e = max (ilog2 \<bar>x\<bar> - 52) (- 1074)
           in of_int (round_half_even (x / 2 powi e)) * 2 powi e)"

text \<open>
  \<^verbatim>\<open>a / b\<close> on two integers is the correctly rounded quotient; the program divides only under
  the guard \<^verbatim>\<open>total > 0\<close>. \<^verbatim>\<open>x * y\<close> on floats is the correctly rounded product. \<^verbatim>\<open>x // y\<close> on
  floats is the floor of the quotient, which CPython computes exactly from \<^verbatim>\<open>fmod\<close> as long
  as the quotient is below \<open>2\<^sup>5\<^sup>3\<close>. \<^verbatim>\<open>int(x)\<close> cuts the fraction off.
\<close>

definition int_truediv :: "int \<Rightarrow> int \<Rightarrow> rat" where
  "int_truediv a b = to_double (of_int a / of_int b)"

definition float_mul :: "rat \<Rightarrow> rat \<Rightarrow> rat" where
  "float_mul x y = to_double (x * y)"

definition float_floordiv :: "rat \<Rightarrow> rat \<Rightarrow> rat" where
  "float_floordiv x y = of_int \<lfloor>x / y\<rfloor>"

definition int_of_float :: "rat \<Rightarrow> int" where
  "int_of_float x = (if 0 \<le> x then \<lfloor>x\<rfloor> else \<lceil>x\<rceil>)"

text \<open>
  A number that is an \<^verbatim>\<open>int\<close> or a \<^verbatim>\<open>float\<close>, and \<^verbatim>\<open>round(x, ndigits)\<close> for \<^verbatim>\<open>ndigits \<ge> 0\<close>: an
  \<^verbatim>\<open>int\<close> is returned as it is; a \<^verbatim>\<open>float\<close> is written in decimal with that many digits after
  the point, correctly rounded with a tie going to the even digit, and the decimal is read
  back as a double.
\<close>

datatype pynum = PyInt int | PyFloat rat

fun py_round :: "pynum \<Rightarrow> nat \<Rightarrow> pynum" where
  "py_round (PyInt n) ndigits = PyInt n"
| "py_round (PyFloat x) ndigits =
     PyFloat (to_double (of_int (round_half_even (x * 10 ^ ndigits)) / 10 ^ ndigits))"

text \<open>\<^verbatim>\<open>str\<close> of an integer, as an f-string renders it.\<close>

definition digit :: "nat \<Rightarrow> char" where
  "digit n = ''0123456789'' ! n"

fun str_nat :: "nat \<Rightarrow> string" where
  "str_nat n = (if n < 10 then [digit n] else str_nat (n div 10) @ [digit (n mod 10)])"

declare str_nat.simps [simp del]

definition str_int :: "int \<Rightarrow> string" where
  "str_int i = (if i < 0 then CHR ''-'' # str_nat (nat (- i)) else str_nat (nat i))"

section \<open>Time\<close>

text \<open>
  A \<^verbatim>\<open>timedelta\<close> is a number of microseconds. \<^verbatim>\<open>total_seconds()\<close> divides that integer by
  \<open>10\<^sup>6\<close> as a float. \<^verbatim>\<open>strftime('%H:%M')\<close> writes the hour and the minute of the day with two
  digits each.
\<close>

definition total_seconds :: "int \<Rightarrow> rat" where
  "total_seconds td = to_double (of_int td / 1000000)"

definition two_digits :: "nat \<Rightarrow> string" where
  "two_digits n = [digit (n div 10), digit (n mod 10)]"

definition strftime_HM :: "timestamp \<Rightarrow> string" where
  "strftime_HM d =
     two_digits (nat ((d div 3600000000) mod 24)) @ '':'' @ two_digits (nat ((d div 60000000) mod 60))"

section \<open>Statistics\<close>

record stats =
  s_total :: int
  s_completed :: int
  s_pending :: int
  s_overdue :: int
  s_completion_rate :: pynum

text \<open>
  \<^verbatim>\<open>calculate_stats\<close>. A \<^verbatim>\<open>datetime\<close> is always true, so \<^verbatim>\<open>t.get('due_date') and ...\<close> tests that
  the due date is not null.
\<close>

definition calculate_stats :: "world \<Rightarrow> uuid \<Rightarrow> error + stats" where
  "calculate_stats w user_id =
     (case get_user_tasks w user_id None None of
        Inl e \<Rightarrow> Inl e
      | Inr rows \<Rightarrow>
          (let tasks = rows;
               total = int (length tasks);
               completed = int (length (filter (\<lambda>t. t_completed (row_task t)) tasks));
               pending = total - completed;
               overdue = int (length (filter (\<lambda>t. \<not> t_completed (row_task t)
                                                   \<and> (case t_due_date (row_task t) of
                                                         None \<Rightarrow> False
                                                       | Some d \<Rightarrow> d < datetime_now w)) tasks))
           in Inr \<lparr> s_total = total, s_completed = completed, s_pending = pending, s_overdue = overdue,
                    s_completion_rate =
                      py_round (if total > 0 then PyFloat (float_mul (int_truediv completed total) 100)
                                else PyInt 0) 1 \<rparr>))"

section \<open>Notifications\<close>

record notification =
  n_task :: task_row
  n_urgency :: string
  n_message :: string
  n_due_date :: timestamp

text \<open>The \<^verbatim>\<open>for\<close> loop of \<^verbatim>\<open>get_due_notifications\<close>, with the list it appends to.\<close>

fun notifications_loop :: "timestamp \<Rightarrow> task_row list \<Rightarrow> notification list \<Rightarrow> notification list" where
  "notifications_loop now [] notifications = notifications"
| "notifications_loop now (task # rest) notifications =
     (case t_due_date (row_task task) of
        None \<Rightarrow> notifications_loop now rest notifications
      | Some due_date \<Rightarrow>
          (let time_diff = due_date - now
           in if 0 < total_seconds time_diff \<and> total_seconds time_diff \<le> 86400 then
                (let (urgency, message) =
                       (if total_seconds time_diff < 3600
                        then (''urgent'',
                              ''Due in '' @ str_int (int_of_float (float_floordiv (total_seconds time_diff) 60))
                                @ '' minutes'')
                        else (''today'', ''Due today at '' @ strftime_HM due_date))
                 in notifications_loop now rest
                      (notifications @ [\<lparr> n_task = task, n_urgency = urgency, n_message = message,
                                          n_due_date = due_date \<rparr>]))
              else notifications_loop now rest notifications))"

text \<open>Python's \<^verbatim>\<open>sorted\<close> is stable, as \<open>sort_key\<close> is.\<close>

definition get_due_notifications :: "world \<Rightarrow> uuid \<Rightarrow> error + notification list" where
  "get_due_notifications w user_id =
     (case get_user_tasks w user_id (Some ''pending'') None of
        Inl e \<Rightarrow> Inl e
      | Inr rows \<Rightarrow>
          (let tasks = rows;
               now = datetime_now w
           in Inr (sort_key n_due_date (notifications_loop now tasks []))))"

section \<open>Requests and replies\<close>

text \<open>
  A handler ends by redirecting or by rendering a template, after flashing messages; or an
  exception leaves it, which the framework turns into a server error. An exception leaves
  its handler before \<^verbatim>\<open>conn.commit()\<close>, so the rows of the store keep the state they had; a
  step that the sequence of identities has taken is not taken back.

  The table of users is not modelled: the session's user is taken to exist, as no handler
  deletes a user, so \<^verbatim>\<open>get_user_by_id\<close> finds the user whenever there is a connection, and
  gives \<^verbatim>\<open>None\<close> when there is none. Of the user only that much is kept. The templates of the
  two forms begin with \<^verbatim>\<open>user.get('theme', 'dark')\<close>, which raises when the user is \<^verbatim>\<open>None\<close>.
\<close>

datatype reply =
  Redirect string
| Render string "category list" "task option"

record response =
  flashed :: "(string \<times> string) list"
  reply :: reply

type_synonym outcome = "(error + response) \<times> world"

datatype http_method = GET | POST

record form =
  f_title :: "string option"
  f_description :: "string option"
  f_category :: "string option"
  f_priority :: "string option"
  f_due_date :: "string option"

text \<open>
  \<^verbatim>\<open>login_required\<close>: without \<^verbatim>\<open>user_id\<close> in the session the handler is not entered.
  \<^verbatim>\<open>url_for\<close> of an endpoint is the path of its route.
\<close>

definition login_required :: "(world \<Rightarrow> uuid \<Rightarrow> outcome) \<Rightarrow> world \<Rightarrow> uuid option \<Rightarrow> outcome" where
  "login_required f w session =
     (case session of
        None \<Rightarrow> (Inr \<lparr> flashed = [(''Please log in to access this page.'', ''error'')],
                       reply = Redirect ''/login'' \<rparr>, w)
      | Some user_id \<Rightarrow> f w user_id)"

definition fetchone :: "'a list \<Rightarrow> 'a option" where
  "fetchone rows = (case rows of [] \<Rightarrow> None | r # _ \<Rightarrow> Some r)"

definition get_user_by_id :: "world \<Rightarrow> uuid \<Rightarrow> uuid option" where
  "get_user_by_id w user_id =
     (case get_db_connection w of
        None \<Rightarrow> None
      | Some conn \<Rightarrow> Some user_id)"

definition get_user_categories :: "world \<Rightarrow> uuid \<Rightarrow> category list" where
  "get_user_categories w user_id =
     (case get_db_connection w of
        None \<Rightarrow> []
      | Some conn \<Rightarrow> sort_key c_created_at (filter (\<lambda>c. c_user_id c = user_id) (categories conn)))"

definition render_template_string :: "string \<Rightarrow> uuid option \<Rightarrow> category list \<Rightarrow> task option \<Rightarrow> error + reply" where
  "render_template_string template user the_categories the_task =
     (case user of
        None \<Rightarrow> Inl UndefinedError
      | Some u \<Rightarrow> Inr (Render template the_categories the_task))"

text \<open>
  \<^verbatim>\<open>str.strip()\<close>: the white space of Python among the code points below 256. And
  \<^verbatim>\<open>datetime.fromisoformat(due_date_str) if due_date_str else None\<close>. The parser of the standard
  library is a parameter: it gives the timestamp or, for \<^verbatim>\<open>ValueError\<close>, nothing.
\<close>

definition isspace :: "char \<Rightarrow> bool" where
  "isspace c = (c \<in> set [CHR '' '', CHR 0x09, CHR 0x0A, CHR 0x0B, CHR 0x0C, CHR 0x0D,
                          CHR 0x1C, CHR 0x1D, CHR 0x1E, CHR 0x1F, CHR 0x85, CHR 0xA0])"

definition strip :: "string \<Rightarrow> string" where
  "strip s = rev (dropWhile isspace (rev (dropWhile isspace s)))"

definition parse_due_date :: "(string \<Rightarrow> timestamp option) \<Rightarrow> string option \<Rightarrow> error + timestamp option" where
  "parse_due_date fromisoformat due_date_str =
     (case due_date_str of
        None \<Rightarrow> Inr None
      | Some v \<Rightarrow> if v = [] then Inr None
                  else (case fromisoformat v of None \<Rightarrow> Inl ValueError | Some d \<Rightarrow> Inr (Some d)))"

section \<open>Statements that write\<close>

text \<open>
  Storing a string in a \<^verbatim>\<open>VARCHAR(n)\<close> column: a longer string is an error, unless all that
  exceeds \<open>n\<close> characters is spaces, which are then cut off.
\<close>

definition varchar :: "nat \<Rightarrow> string \<Rightarrow> error + string" where
  "varchar n s =
     (if length s \<le> n then Inr s
      else if \<forall>c \<in> set (drop n s). c = CHR '' '' then Inr (take n s)
      else Inl StringDataRightTruncation)"

text \<open>
  The values of \<^verbatim>\<open>title VARCHAR(255)\<close>, \<^verbatim>\<open>category_id UUID\<close> and \<^verbatim>\<open>priority VARCHAR(20)\<close> as the
  store reads them from the texts of a statement. The text for the uuid is read when the
  statement is analysed and the lengths are checked when it is planned, so both before a
  row is looked at.
\<close>

definition column_values ::
  "string \<Rightarrow> string option \<Rightarrow> string option \<Rightarrow> error + string \<times> uuid option \<times> string option" where
  "column_values title category_id priority =
     (case (case category_id of
              None \<Rightarrow> Inr None
            | Some v \<Rightarrow> (case uuid_in v of None \<Rightarrow> Inl InvalidTextRepresentation | Some k \<Rightarrow> Inr (Some k))) of
        Inl e \<Rightarrow> Inl e
      | Inr category_id' \<Rightarrow>
          (case varchar 255 title of
             Inl e \<Rightarrow> Inl e
           | Inr title' \<Rightarrow>
               (case (case priority of None \<Rightarrow> Inr None | Some p \<Rightarrow> map_sum (\<lambda>e. e) Some (varchar 20 p)) of
                  Inl e \<Rightarrow> Inl e
                | Inr priority' \<Rightarrow> Inr (title', category_id', priority'))))"

text \<open>\<^verbatim>\<open>category_id UUID REFERENCES categories(id)\<close>, broken by a row that is written.\<close>

definition foreign_key_violated :: "database \<Rightarrow> uuid option \<Rightarrow> bool" where
  "foreign_key_violated d category_id =
     (case category_id of None \<Rightarrow> False | Some k \<Rightarrow> k \<notin> c_id ` set (categories d))"

text \<open>
  \<^verbatim>\<open>INSERT INTO tasks (user_id, title, description, category_id, priority, due_date)\<close>: the
  other columns take their defaults, \<^verbatim>\<open>id\<close> the next value of the sequence. The result is
  the exception, if the statement raises one, and the store it leaves: the reference to the
  category is checked on the row, when the sequence has given its value.
\<close>

definition insert_task ::
  "database \<Rightarrow> timestamp \<Rightarrow> uuid \<Rightarrow> string \<Rightarrow> string option \<Rightarrow> string option \<Rightarrow> string option
     \<Rightarrow> timestamp option \<Rightarrow> error option \<times> database" where
  "insert_task d ts user_id title description category_id priority due_date =
     (case column_values title category_id priority of
        Inl e \<Rightarrow> (Some e, d)
      | Inr (title', category_id', priority') \<Rightarrow>
          (let d' = d\<lparr> tasks_id_seq := tasks_id_seq d + 1 \<rparr>
           in if foreign_key_violated d category_id' then (Some ForeignKeyViolation, d')
              else (None,
                    d'\<lparr> tasks := tasks d @
                          [\<lparr> t_id = tasks_id_seq d, t_user_id = user_id, t_title = title',
                             t_description = description, t_category_id = category_id',
                             t_priority = priority', t_due_date = due_date, t_completed = False,
                             t_completed_at = None, t_created_at = ts, t_updated_at = ts \<rparr>] \<rparr>)))"

text \<open>
  \<^verbatim>\<open>UPDATE tasks SET title=%s, description=%s, category_id=%s, priority=%s, due_date=%s,
  updated_at=CURRENT_TIMESTAMP WHERE id=%s AND user_id=%s\<close>. The reference to the category is
  checked when a row is written.
\<close>

definition update_task ::
  "database \<Rightarrow> timestamp \<Rightarrow> int \<Rightarrow> uuid \<Rightarrow> string \<Rightarrow> string option \<Rightarrow> string option \<Rightarrow> string option
     \<Rightarrow> timestamp option \<Rightarrow> error + database" where
  "update_task d ts task_id user_id title description category_id priority due_date =
     (case column_values title category_id priority of
        Inl e \<Rightarrow> Inl e
      | Inr (title', category_id', priority') \<Rightarrow>
          if \<not> (\<exists>t \<in> set (tasks d). t_id t = task_id \<and> t_user_id t = user_id) then Inr d
          else if foreign_key_violated d category_id' then Inl ForeignKeyViolation
          else Inr (d\<lparr> tasks :=
                         map (\<lambda>t. if t_id t = task_id \<and> t_user_id t = user_id
                                  then t\<lparr> t_title := title', t_description := description,
                                          t_category_id := category_id', t_priority := priority',
                                          t_due_date := due_date, t_updated_at := ts \<rparr>
                                  else t) (tasks d) \<rparr>))"

text \<open>\<^verbatim>\<open>UPDATE tasks SET completed=%s, completed_at=%s WHERE id=%s\<close>.\<close>

definition update_completed :: "database \<Rightarrow> int \<Rightarrow> bool \<Rightarrow> timestamp option \<Rightarrow> database" where
  "update_completed d task_id new_status completed_at =
     d\<lparr> tasks := map (\<lambda>t. if t_id t = task_id
                            then t\<lparr> t_completed := new_status, t_completed_at := completed_at \<rparr>
                            else t) (tasks d) \<rparr>"

text \<open>\<^verbatim>\<open>DELETE FROM tasks WHERE id = %s AND user_id = %s\<close>.\<close>

definition delete_from_tasks :: "database \<Rightarrow> int \<Rightarrow> uuid \<Rightarrow> database" where
  "delete_from_tasks d task_id user_id =
     d\<lparr> tasks := filter (\<lambda>t. \<not> (t_id t = task_id \<and> t_user_id t = user_id)) (tasks d) \<rparr>"

text \<open>\<^verbatim>\<open>SELECT ... FROM tasks WHERE id = %s AND user_id = %s\<close>, and its first row.\<close>

definition select_task :: "database \<Rightarrow> int \<Rightarrow> uuid \<Rightarrow> task option" where
  "select_task d task_id user_id =
     fetchone (filter (\<lambda>t. t_id t = task_id \<and> t_user_id t = user_id) (tasks d))"

section \<open>The handlers that change tasks\<close>

definition form_title :: "form \<Rightarrow> string" where
  "form_title form = strip (case f_title form of None \<Rightarrow> [] | Some v \<Rightarrow> v)"

text \<open>\<^verbatim>\<open>category_id if category_id else None\<close>: the text of the form, not yet read as a uuid.\<close>

definition form_category :: "form \<Rightarrow> string option" where
  "form_category form = (if truthy (f_category form) then f_category form else None)"

definition add_task :: "(string \<Rightarrow> timestamp option) \<Rightarrow> world \<Rightarrow> uuid option \<Rightarrow> http_method \<Rightarrow> form \<Rightarrow> outcome" where
  "add_task fromisoformat w session method form =
     login_required (\<lambda>w user_id.
       let user = get_user_by_id w user_id;
           categories = get_user_categories w user_id
       in if method = POST then
            (let title = form_title form
             in if title = [] then
                  (case render_template_string ''ADD_TASK_TEMPLATE'' user categories None of
                     Inl e \<Rightarrow> (Inl e, w)
                   | Inr page \<Rightarrow>
                       (Inr \<lparr> flashed = [(''Task title is required'', ''error'')], reply = page \<rparr>, w))
                else
                  (case get_db_connection w of
                     None \<Rightarrow> (Inl AttributeError, w)
                   | Some conn \<Rightarrow>
                       (case parse_due_date fromisoformat (f_due_date form) of
                          Inl e \<Rightarrow> (Inl e, w)
                        | Inr due_date \<Rightarrow>
                            (case insert_task conn (current_timestamp w) user_id title
                                    (f_description form) (form_category form) (f_priority form) due_date of
                               (Some e, conn') \<Rightarrow> (Inl e, w\<lparr> db := conn' \<rparr>)
                             | (None, conn') \<Rightarrow>
                                 (Inr \<lparr> flashed = [(''Task added successfully!'', ''success'')],
                                        reply = Redirect ''/dashboard'' \<rparr>, w\<lparr> db := conn' \<rparr>)))))
          else
            (case render_template_string ''ADD_TASK_TEMPLATE'' user categories None of
               Inl e \<Rightarrow> (Inl e, w)
             | Inr page \<Rightarrow> (Inr \<lparr> flashed = [], reply = page \<rparr>, w)))
       w session"

definition edit_task ::
  "(string \<Rightarrow> timestamp option) \<Rightarrow> world \<Rightarrow> uuid option \<Rightarrow> http_method \<Rightarrow> form \<Rightarrow> int \<Rightarrow> outcome" where
  "edit_task fromisoformat w session method form task_id =
     login_required (\<lambda>w user_id.
       let user = get_user_by_id w user_id;
           categories = get_user_categories w user_id
       in case get_db_connection w of
            None \<Rightarrow> (Inl AttributeError, w)
          | Some conn \<Rightarrow>
              (case select_task conn task_id user_id of
                 None \<Rightarrow> (Inr \<lparr> flashed = [(''Task not found.'', ''error'')],
                                reply = Redirect ''/dashboard'' \<rparr>, w)
               | Some task \<Rightarrow>
                   if method = POST then
                     (let title = form_title form
                      in if title = [] then
                           (case render_template_string ''EDIT_TASK_TEMPLATE'' user categories (Some task) of
                              Inl e \<Rightarrow> (Inl e, w)
                            | Inr page \<Rightarrow>
                                (Inr \<lparr> flashed = [(''Task title is required'', ''error'')], reply = page \<rparr>, w))
                         else
                           (case parse_due_date fromisoformat (f_due_date form) of
                              Inl e \<Rightarrow> (Inl e, w)
                            | Inr due_date \<Rightarrow>
                                (case update_task conn (current_timestamp w) task_id user_id title
                                        (f_description form) (form_category form) (f_priority form) due_date of
                                   Inl e \<Rightarrow> (Inl e, w)
                                 | Inr conn' \<Rightarrow>
                                     (Inr \<lparr> flashed = [(''Task updated successfully!'', ''success'')],
                                            reply = Redirect ''/dashboard'' \<rparr>, w\<lparr> db := conn' \<rparr>))))
                   else
                     (case render_template_string ''EDIT_TASK_TEMPLATE'' user categories (Some task) of
                        Inl e \<Rightarrow> (Inl e, w)
                      | Inr page \<Rightarrow> (Inr \<lparr> flashed = [], reply = page \<rparr>, w))))
       w session"

text \<open>
  \<^verbatim>\<open>toggle_task\<close> selects the column \<^verbatim>\<open>completed\<close> of the row and redirects to
  \<^verbatim>\<open>request.referrer or url_for('dashboard')\<close>.
\<close>

definition toggle_task :: "world \<Rightarrow> uuid option \<Rightarrow> string option \<Rightarrow> int \<Rightarrow> outcome" where
  "toggle_task w session referrer task_id =
     login_required (\<lambda>w user_id.
       case get_db_connection w of
         None \<Rightarrow> (Inl AttributeError, w)
       | Some conn \<Rightarrow>
           (let task = map_option t_completed (select_task conn task_id user_id);
                conn' = (case task of
                           None \<Rightarrow> conn
                         | Some task0 \<Rightarrow>
                             (let new_status = \<not> task0;
                                  completed_at = (if new_status then Some (datetime_now w) else None)
                              in update_completed conn task_id new_status completed_at))
            in (Inr \<lparr> flashed = [],
                      reply = Redirect (case referrer of
                                          None \<Rightarrow> ''/dashboard''
                                        | Some r \<Rightarrow> if r = [] then ''/dashboard'' else r) \<rparr>,
                w\<lparr> db := conn' \<rparr>)))
       w session"

definition delete_task :: "world \<Rightarrow> uuid option \<Rightarrow> int \<Rightarrow> outcome" where
  "delete_task w session task_id =
     login_required (\<lambda>w user_id.
       case get_db_connection w of
         None \<Rightarrow> (Inl AttributeError, w)
       | Some conn \<Rightarrow>
           (Inr \<lparr> flashed = [(''Task deleted.'', ''success'')], reply = Redirect ''/dashboard'' \<rparr>,
            w\<lparr> db := delete_from_tasks conn task_id user_id \<rparr>))
       w session"

text \<open>
  \<^verbatim>\<open>duplicate_task\<close> gives the insert the fields that the select returned; the uuid of the
  category comes back as its text.
\<close>

definition duplicate_task :: "world \<Rightarrow> uuid option \<Rightarrow> int \<Rightarrow> outcome" where
  "duplicate_task w session task_id =
     login_required (\<lambda>w user_id.
       case get_db_connection w of
         None \<Rightarrow> (Inl AttributeError, w)
       | Some conn \<Rightarrow>
           (case select_task conn task_id user_id of
              None \<Rightarrow> (Inr \<lparr> flashed = [(''Task duplicated.'', ''success'')],
                             reply = Redirect ''/dashboard'' \<rparr>, w)
            | Some task \<Rightarrow>
                (case insert_task conn (current_timestamp w) user_id (''Copy of '' @ t_title task)
                        (t_description task) (t_category_id task) (t_priority task) (t_due_date task) of
                   (Some e, conn') \<Rightarrow> (Inl e, w\<lparr> db := conn' \<rparr>)
                 | (None, conn') \<Rightarrow>
                     (Inr \<lparr> flashed = [(''Task duplicated.'', ''success'')],
                            reply = Redirect ''/dashboard'' \<rparr>, w\<lparr> db := conn' \<rparr>))))
       w session"

section \<open>What the schema declares\<close>

text \<open>
  The declarations of \<^verbatim>\<open>init_database\<close> that the store enforces on the two relations: the
  primary keys, the sequence that is ahead of every identity given out, the lengths of
  \<^verbatim>\<open>title\<close> and \<^verbatim>\<open>priority\<close>, and the reference from a task to its category.
\<close>

definition wf_db :: "database \<Rightarrow> bool" where
  "wf_db d =
     (distinct (map c_id (categories d))
      \<and> distinct (map t_id (tasks d))
      \<and> (\<forall>t \<in> set (tasks d).
            t_id t < tasks_id_seq d
            \<and> length (t_title t) \<le> 255
            \<and> (case t_priority t of None \<Rightarrow> True | Some p \<Rightarrow> length p \<le> 20)
            \<and> (case t_category_id t of None \<Rightarrow> True | Some k \<Rightarrow> k \<in> c_id ` set (categories d))))"

section \<open>The properties, in the words of the specification\<close>

text \<open>
  The tasks that a listing is to hold: those of the owner, under the status filter
  (\<open>pending\<close>, \<open>completed\<close>, \<open>overdue\<close>, and no restriction for any other value or none), and,
  when a category is given, those whose category it is.
\<close>

definition selected :: "timestamp \<Rightarrow> uuid \<Rightarrow> string option \<Rightarrow> uuid option \<Rightarrow> task \<Rightarrow> bool" where
  "selected now owner status_filter category t =
     (t_user_id t = owner
      \<and> (status_filter = Some ''pending'' \<longrightarrow> \<not> t_completed t)
      \<and> (status_filter = Some ''completed'' \<longrightarrow> t_completed t)
      \<and> (status_filter = Some ''overdue'' \<longrightarrow>
            \<not> t_completed t \<and> (case t_due_date t of None \<Rightarrow> False | Some d \<Rightarrow> d < now))
      \<and> (case category of None \<Rightarrow> True | Some k \<Rightarrow> t_category_id t = Some k))"

text \<open>An overdue task: not completed, with a due date earlier than the current time.\<close>

definition is_overdue :: "timestamp \<Rightarrow> task \<Rightarrow> bool" where
  "is_overdue now t = (\<not> t_completed t \<and> (case t_due_date t of None \<Rightarrow> False | Some d \<Rightarrow> d < now))"

text \<open>The share of the completed tasks in a hundred, as the exact fraction.\<close>

definition percentage :: "int \<Rightarrow> int \<Rightarrow> rat" where
  "percentage done all = of_int (100 * done) / of_int all"

text \<open>
  The time to a due date, in seconds, and a task due within the next twenty-four hours: it
  has a due date, more than \<open>0\<close> and at most \<open>86400\<close> seconds ahead.
\<close>

definition seconds_to_due :: "timestamp \<Rightarrow> timestamp \<Rightarrow> rat" where
  "seconds_to_due now due = of_int (due - now) / 1000000"

definition due_within_24h :: "timestamp \<Rightarrow> task_row \<Rightarrow> bool" where
  "due_within_24h now r =
     (case t_due_date (row_task r) of
        None \<Rightarrow> False
      | Some due \<Rightarrow> 0 < seconds_to_due now due \<and> seconds_to_due now due \<le> 86400)"

text \<open>
  The character of a decimal digit, the numeral of a number of minutes below a hundred,
  and the time of day of a timestamp on the twenty-four hour clock, \<^verbatim>\<open>HH:MM\<close>: what is left
  of the timestamp within its day, in whole hours, and within its hour, in whole minutes.
\<close>

definition decimal_digit :: "nat \<Rightarrow> char" where
  "decimal_digit n = char_of (48 + n)"

definition minutes_text :: "nat \<Rightarrow> string" where
  "minutes_text n = (if n < 10 then [decimal_digit n] else [decimal_digit (n div 10), decimal_digit (n mod 10)])"

definition clock_text :: "timestamp \<Rightarrow> string" where
  "clock_text d =
     (let hour = nat ((d mod 86400000000) div 3600000000);
          minute = nat ((d mod 3600000000) div 60000000)
      in [decimal_digit (hour div 10), decimal_digit (hour mod 10), CHR '':'',
          decimal_digit (minute div 10), decimal_digit (minute mod 10)])"

text \<open>
  The invariant of the completion fields: a task is not completed exactly when it has no
  time of completion.
\<close>

definition completion_invariant :: "database \<Rightarrow> bool" where
  "completion_invariant d = (\<forall>t \<in> set (tasks d). (\<not> t_completed t) = (t_completed_at t = None))"

text \<open>
  The two transitions of a task: from pending to completed, the time of completion being
  set to the current time, and from completed to pending, the time of completion being
  cleared.
\<close>

definition toggled :: "timestamp \<Rightarrow> task \<Rightarrow> task" where
  "toggled now t = t\<lparr> t_completed := \<not> t_completed t,
                      t_completed_at := (if t_completed t then None else Some now) \<rparr>"

text \<open>The completion state of a task, with its identity.\<close>

definition completion_of :: "task \<Rightarrow> int \<times> bool \<times> timestamp option" where
  "completion_of t = (t_id t, t_completed t, t_completed_at t)"

section \<open>Definitions for the proofs\<close>

text \<open>The category that the left join finds for a task.\<close>

definition category_of :: "category list \<Rightarrow> task \<Rightarrow> category option" where
  "category_of cs t = find (\<lambda>c. t_category_id t = Some (c_id c)) cs"

text \<open>What the schema declares of one task, given the categories there are.\<close>

definition row_ok :: "category list \<Rightarrow> task \<Rightarrow> bool" where
  "row_ok cs t =
     (length (t_title t) \<le> 255
      \<and> (case t_priority t of None \<Rightarrow> True | Some p \<Rightarrow> length p \<le> 20)
      \<and> (case t_category_id t of None \<Rightarrow> True | Some k \<Rightarrow> k \<in> c_id ` set cs))"

text \<open>A digit of a uuid as the store prints it.\<close>

definition lower_hex :: "char \<Rightarrow> bool" where
  "lower_hex c = (c \<in> set ''0123456789abcdef'')"

text \<open>The rows of a listing without a category filter, which does not raise.\<close>

definition listed :: "world \<Rightarrow> uuid \<Rightarrow> string option \<Rightarrow> task_row list" where
  "listed w user_id filter_param =
     (case get_user_tasks w user_id filter_param None of Inl e \<Rightarrow> [] | Inr rows \<Rightarrow> rows)"

text \<open>What one turn of the loop appends, on the microseconds.\<close>

definition notification_for :: "timestamp \<Rightarrow> task_row \<Rightarrow> notification option" where
  "notification_for now r =
     (case t_due_date (row_task r) of
        None \<Rightarrow> None
      | Some due \<Rightarrow>
          if 0 < due - now \<and> due - now \<le> 86400000000 then
            Some \<lparr> n_task = r,
                   n_urgency = (if due - now < 3600000000 then ''urgent'' else ''today''),
                   n_message = (if due - now < 3600000000
                                then ''Due in '' @ str_int ((due - now) div 60000000) @ '' minutes''
                                else ''Due today at '' @ strftime_HM due),
                   n_due_date = due \<rparr>
          else None)"

section \<open>A store to try the theorems on\<close>

text \<open>
  Two users; \<open>alice\<close> has a task due in thirty minutes, a completed one and one due in exactly
  twenty-four hours, \<open>bob\<close> has one due in five hours. It is noon.
\<close>

definition alice :: uuid where
  "alice = ''a11ce000-0000-4000-8000-000000000001''"

definition bob :: uuid where
  "bob = ''b0b00000-0000-4000-8000-000000000002''"

definition noon :: timestamp where
  "noon = 43200000000"

definition work :: category where
  "work = \<lparr> c_id = ''c0000000-0000-4000-8000-000000000001'', c_user_id = alice, c_name = ''Work'',
            c_color = ''#dc2626'', c_icon = ''W'', c_created_at = 0 \<rparr>"

definition report :: task where
  "report = \<lparr> t_id = 1, t_user_id = alice, t_title = ''Report'', t_description = None,
              t_category_id = Some (c_id work), t_priority = Some ''high'',
              t_due_date = Some (noon + 1800000000), t_completed = False, t_completed_at = None,
              t_created_at = 100, t_updated_at = 100 \<rparr>"

definition rent :: task where
  "rent = \<lparr> t_id = 2, t_user_id = alice, t_title = ''Rent'', t_description = Some ''monthly'',
            t_category_id = None, t_priority = Some ''medium'',
            t_due_date = Some (noon - 1), t_completed = True, t_completed_at = Some 250,
            t_created_at = 200, t_updated_at = 200 \<rparr>"

definition groceries :: task where
  "groceries = \<lparr> t_id = 3, t_user_id = bob, t_title = ''Groceries'', t_description = None,
                 t_category_id = None, t_priority = None,
                 t_due_date = Some (noon + 18000000000), t_completed = False, t_completed_at = None,
                 t_created_at = 300, t_updated_at = 300 \<rparr>"

definition call :: task where
  "call = \<lparr> t_id = 4, t_user_id = alice, t_title = ''Call'', t_description = None,
            t_category_id = None, t_priority = Some ''low'',
            t_due_date = Some (noon + 86400000000), t_completed = False, t_completed_at = None,
            t_created_at = 400, t_updated_at = 400 \<rparr>"

definition example_db :: database where
  "example_db = \<lparr> categories = [work], tasks = [report, rent, groceries, call], tasks_id_seq = 5 \<rparr>"

definition example_world :: world where
  "example_world = \<lparr> reachable = True, db = example_db, datetime_now = noon, current_timestamp = noon \<rparr>"

text \<open>A form for a new task, with a title to be stripped and no category chosen.\<close>

definition milk_form :: form where
  "milk_form = \<lparr> f_title = Some '' Buy milk '', f_description = None, f_category = Some [],
                 f_priority = Some ''low'', f_due_date = None \<rparr>"

text \<open>A form for a new task whose title has 248 characters.\<close>

definition long_form :: form where
  "long_form = \<lparr> f_title = Some (replicate 248 (CHR ''a'')), f_description = None, f_category = None,
                 f_priority = Some ''medium'', f_due_date = None \<rparr>"

text \<open>
  The same store without the last task: \<open>alice\<close> has two tasks, one of them completed. And
  the identity of her category as a request may write it, in capitals.
\<close>

definition two_tasks_world :: world where
  "two_tasks_world = example_world\<lparr> db := example_db\<lparr> tasks := [report, rent, groceries] \<rparr> \<rparr>"


lemmas example_defs = example_world_def example_db_def report_def rent_def groceries_def call_def work_def
  alice_def bob_def noon_def

lemma wf_example: "wf_db (db example_world)"
  by (simp add: example_defs wf_db_def)

section \<open>The listing selects and orders\<close>

lemma filter_key_find:
  "distinct (map c_id cs) \<Longrightarrow>
   filter (\<lambda>c. k = Some (c_id c)) cs = (case find (\<lambda>c. k = Some (c_id c)) cs of None \<Rightarrow> [] | Some c \<Rightarrow> [c])"
proof (induction cs)
  case Nil
  then show ?case by simp
next
  case (Cons c cs)
  show ?case
  proof (cases "k = Some (c_id c)")
    case True
    with Cons.prems have "filter (\<lambda>c'. k = Some (c_id c')) cs = []"
      by (auto simp: filter_empty_conv)
    with True show ?thesis by simp
  next
    case False
    with Cons show ?thesis by simp
  qed
qed

lemma left_join_distinct:
  "distinct (map c_id cs) \<Longrightarrow> left_join ts cs = map (\<lambda>t. (t, category_of cs t)) ts"
  by (induction ts) (simp_all add: left_join_def category_of_def filter_key_find split: option.splits)

lemma category_of_None: "t_category_id t = None \<Longrightarrow> category_of cs t = None"
  by (simp add: category_of_def find_None_iff)

lemma category_of_Some:
  "t_category_id t = Some k \<Longrightarrow> k \<in> c_id ` set cs \<Longrightarrow> \<exists>c. category_of cs t = Some c \<and> c_id c = k"
  unfolding category_of_def by (cases "find (\<lambda>c. Some k = Some (c_id c)) cs") (auto simp: find_None_iff dest: find_Some_iff[THEN iffD1])

lemma status_clause_selected: 
  "status_clause now sf t = ((sf = Some ''pending'' \<longrightarrow> \<not> t_completed t)
      \<and> (sf = Some ''completed'' \<longrightarrow> t_completed t)
      \<and> (sf = Some ''overdue'' \<longrightarrow>
            \<not> t_completed t \<and> (case t_due_date t of None \<Rightarrow> False | Some d \<Rightarrow> d < now)))"
  by (auto simp: status_clause_def)

lemma category_clause_wf:
  assumes "wf_db d" "t \<in> set (tasks d)"
  shows "category_clause c (category_of (categories d) t)
           = (case c of None \<Rightarrow> True | Some k \<Rightarrow> t_category_id t = Some k)"
proof (cases "t_category_id t")
  case None
  then show ?thesis
    by (simp add: category_clause_def category_of_None split: option.splits)
next
  case (Some k)
  with assms have "k \<in> c_id ` set (categories d)"
    by (fastforce simp: wf_db_def)
  from category_of_Some[OF Some this] obtain c' where "category_of (categories d) t = Some c'" "c_id c' = k"
    by blast
  with Some show ?thesis
    by (simp add: category_clause_def split: option.splits)
qed

lemma filter_map_pair: "map fst (filter P (map (\<lambda>t. (t, g t)) ts)) = filter (\<lambda>t. P (t, g t)) ts"
  by (induction ts) auto

lemma row_task_make_row: "row_task (make_row x) = fst x"
  by (simp add: make_row_def)

lemma category_value_absent: "category_value None = Inr None" "category_value (Some []) = Inr None"
  by (simp_all add: category_value_def truthy_def)


lemma category_value_not_uuid:
  "text \<noteq> [] \<Longrightarrow> uuid_in text = None \<Longrightarrow> category_value (Some text) = Inl InvalidTextRepresentation"
  by (simp add: category_value_def truthy_def)

lemma listing_tasks:
  assumes "reachable w" "wf_db (db w)" "category_value category_param = Inr c"
  shows "\<exists>rows. get_user_tasks w owner sf category_param = Inr rows
           \<and> map row_task rows =
               map fst (order_by_created_at_desc
                          (map (\<lambda>t. (t, category_of (categories (db w)) t))
                             (filter (selected (current_timestamp w) owner sf c) (tasks (db w)))))"
proof -
  have d: "distinct (map c_id (categories (db w)))"
    using assms by (simp add: wf_db_def)
  have "filter (\<lambda>tc. t_user_id (fst tc) = owner
                             \<and> status_clause (current_timestamp w) sf (fst tc)
                             \<and> category_clause c (snd tc))
           (map (\<lambda>t. (t, category_of (categories (db w)) t)) (tasks (db w)))
     = map (\<lambda>t. (t, category_of (categories (db w)) t))
         (filter (selected (current_timestamp w) owner sf c) (tasks (db w)))"
    unfolding filter_map comp_def
    by (rule arg_cong[where f="map _"], rule filter_cong[OF refl])
       (simp add: selected_def status_clause_selected category_clause_wf[OF assms(2)])
  then show ?thesis
    using assms(1,3)
    by (simp add: get_user_tasks_def get_db_connection_def left_join_distinct[OF d] row_task_make_row comp_def)
qed

lemma listing_selected:
  assumes "reachable w" "wf_db (db w)" "category_value category_param = Inr c"
  shows "\<exists>rows. get_user_tasks w owner sf category_param = Inr rows
           \<and> mset (map row_task rows) = mset (filter (selected (current_timestamp w) owner sf c) (tasks (db w)))
           \<and> sorted_wrt (\<lambda>a b. t_created_at b \<le> t_created_at a) (map row_task rows)"
proof -
  let ?sel = "filter (selected (current_timestamp w) owner sf c) (tasks (db w))"
  let ?rows = "order_by_created_at_desc (map (\<lambda>t. (t, category_of (categories (db w)) t)) ?sel)"
  from listing_tasks[OF assms] obtain rows where
    rows: "get_user_tasks w owner sf category_param = Inr rows" "map row_task rows = map fst ?rows"
    by blast
  have "mset (map fst ?rows) = image_mset fst (mset ?rows)"
    by simp
  also have "mset ?rows = image_mset (\<lambda>t. (t, category_of (categories (db w)) t)) (mset ?sel)"
    unfolding order_by_created_at_desc_def mset_sort by simp
  finally have "mset (map fst ?rows) = mset ?sel"
    by (simp add: image_mset.compositionality comp_def)
  moreover have "sorted (map (\<lambda>tc. - t_created_at (fst tc)) ?rows)"
    unfolding order_by_created_at_desc_def by (rule sorted_sort_key)
  then have "sorted_wrt (\<lambda>a b. t_created_at b \<le> t_created_at a) (map fst ?rows)"
    by (simp add: sorted_wrt_map)
  ultimately have "mset (map row_task rows) = mset ?sel"
    and "sorted_wrt (\<lambda>a b. t_created_at b \<le> t_created_at a) (map row_task rows)"
    by (simp_all only: rows(2))
  with rows(1) show ?thesis
    by blast
qed

text \<open>
  A text that the store does not read as a uuid makes the listing raise, whatever the
  store holds.
\<close>

lemma get_user_tasks_not_uuid:
  assumes "reachable w" "text \<noteq> []" "uuid_in text = None"
  shows "get_user_tasks w owner sf (Some text) = Inl InvalidTextRepresentation"
  using assms by (simp add: get_user_tasks_def get_db_connection_def category_value_not_uuid)

text \<open>The store reads the text that it prints for a uuid as that uuid.\<close>

lemma lower_hex_tolower: "isxdigit c \<Longrightarrow> lower_hex (tolower c)"
  by (auto simp: isxdigit_def tolower_def lower_hex_def)

lemma lower_hex_read:
  "lower_hex c \<Longrightarrow> isxdigit c \<and> tolower c = c \<and> c \<noteq> CHR ''{'' \<and> c \<noteq> CHR ''-''"
  by (auto simp: isxdigit_def tolower_def lower_hex_def)

lemma uuid_pairs_digits:
  "uuid_pairs n src = Some (ds, rest) \<Longrightarrow> length ds = 2 * n \<and> (\<forall>c \<in> set ds. lower_hex c)"
proof (induction n arbitrary: src ds rest)
  case 0
  then show ?case by simp
next
  case (Suc n)
  from Suc.prems obtain a b tl0 where src: "src = a # b # tl0"
    by (cases src; cases "tl src") (auto split: list.splits)
  with Suc.prems have x: "isxdigit a" "isxdigit b"
    by (auto split: if_splits)
  with Suc.prems src obtain ds' where
    r: "uuid_pairs n (case tl0 of
                        [] \<Rightarrow> tl0
                      | c # rest' \<Rightarrow> if c = CHR ''-'' \<and> even n \<and> 0 < n then rest' else tl0)
          = Some (ds', rest)"
    and ds: "ds = tolower a # tolower b # ds'"
    by auto
  from Suc.IH[OF r] lower_hex_tolower[OF x(1)] lower_hex_tolower[OF x(2)] show ?case
    by (simp add: ds)
qed

lemma list32:
  assumes "length (ds :: 'a list) = 32"
  shows "\<exists>d0 d1 d2 d3 d4 d5 d6 d7 d8 d9 d10 d11 d12 d13 d14 d15 d16 d17 d18 d19 d20 d21 d22
           d23 d24 d25 d26 d27 d28 d29 d30 d31.
           ds = [d0, d1, d2, d3, d4, d5, d6, d7, d8, d9, d10, d11, d12, d13, d14, d15, d16, d17,
              d18, d19, d20, d21, d22, d23, d24, d25, d26, d27, d28, d29, d30, d31]"
  using assms by (auto simp: eval_nat_numeral length_Suc_conv)

lemma uuid_in_printed_aux:
  assumes "length ds = 32" "\<forall>c \<in> set ds. lower_hex c"
  shows "uuid_in (uuid_out ds) = Some (uuid_out ds)"
proof -
  obtain d0 d1 d2 d3 d4 d5 d6 d7 d8 d9 d10 d11 d12 d13 d14 d15 d16 d17 d18 d19 d20 d21 d22 d23 d24
      d25 d26 d27 d28 d29 d30 d31
    where ds: "ds = [d0, d1, d2, d3, d4, d5, d6, d7, d8, d9, d10, d11, d12, d13, d14, d15, d16, d17,
              d18, d19, d20, d21, d22, d23, d24, d25, d26, d27, d28, d29, d30, d31]"
    using list32[OF assms(1)] by (elim exE) (rule that)
  from assms(2) have "\<forall>c \<in> set ds. isxdigit c \<and> tolower c = c \<and> c \<noteq> CHR ''{'' \<and> c \<noteq> CHR ''-''"
    using lower_hex_read by blast
  then have h: "\<forall>c \<in> set [d0, d1, d2, d3, d4, d5, d6, d7, d8, d9, d10, d11, d12, d13, d14, d15, d16, d17,
              d18, d19, d20, d21, d22, d23, d24, d25, d26, d27, d28, d29, d30, d31].
                   isxdigit c \<and> tolower c = c \<and> c \<noteq> CHR ''{'' \<and> c \<noteq> CHR ''-''"
    by (simp only: ds)
  have n: "(16::nat) =
             Suc (Suc (Suc (Suc (Suc (Suc (Suc (Suc (Suc (Suc (Suc (Suc (Suc (Suc (Suc (Suc 0)))))))))))))))"
    by simp
  from h show ?thesis
    unfolding ds uuid_in_def by (subst n) (simp add: uuid_out_def)
qed

lemma uuid_in_printed:
  assumes "uuid_in s = Some k"
  shows "uuid_in k = Some k"
proof -
  from assms obtain src ds rest where "uuid_pairs 16 src = Some (ds, rest)" "k = uuid_out ds"
    by (auto simp: uuid_in_def Let_def split: option.splits if_splits)
  with uuid_pairs_digits[of 16 src ds rest] show ?thesis
    by (simp add: uuid_in_printed_aux)
qed

text \<open>The store reads the texts of a uuid in all the forms it accepts, and no other text.\<close>

lemma uuid_in_examples:
  "uuid_in ''c0000000-0000-4000-8000-000000000001'' = Some ''c0000000-0000-4000-8000-000000000001''"
  "uuid_in ''C0000000-0000-4000-8000-000000000001'' = Some ''c0000000-0000-4000-8000-000000000001''"
  "uuid_in ''{c0000000000040008000000000000001}'' = Some ''c0000000-0000-4000-8000-000000000001''"
  "uuid_in ''c000-0000-0000-4000-8000-0000-0000-0001'' = Some ''c0000000-0000-4000-8000-000000000001''"
  "uuid_in ''abc'' = None"
  "uuid_in [] = None"
  "uuid_in ''c0000000-0000-4000-8000-00000000000g'' = None"
  "uuid_in ''c0000000-0000-4000-8000-000000000001 '' = None"
  "uuid_in ''{c0000000-0000-4000-8000-000000000001'' = None"
  "uuid_in ''c-0000000-0000-4000-8000-000000000001'' = None"
  by code_simp+


lemma example_reachable: "reachable example_world"
  by (simp add: example_world_def)




section \<open>Rounding to a double keeps the comparisons exact\<close>

text \<open>
  \<^verbatim>\<open>total_seconds()\<close> is a float, and the loop compares it with \<open>0\<close>, \<open>3600\<close> and \<open>86400\<close>. A
  double is within one part in \<open>2\<^sup>5\<^sup>3\<close> of the number it rounds, and a whole number of seconds
  is a double itself, while two time differences are at least a microsecond apart: so each
  comparison has the outcome it has on the microseconds.
\<close>

lemma round_half_even_bound: "\<bar>of_int (round_half_even y) - y\<bar> \<le> 1 / 2"
proof -
  have "of_int \<lfloor>y\<rfloor> \<le> y" "y < of_int \<lfloor>y\<rfloor> + 1"
    by linarith+
  then show ?thesis
    unfolding round_half_even_def Let_def by (simp add: abs_le_iff)
qed

lemma round_half_even_of_int: "round_half_even (of_int m) = m"
  by (simp add: round_half_even_def)

lemma ilog2_lower:
  assumes "0 < x"
  shows "2 powi (ilog2 x) \<le> x"
proof (cases "1 \<le> x")
  case True
  then have n: "0 < \<lfloor>x\<rfloor>" by linarith
  have b: "1 \<le> bitlen \<lfloor>x\<rfloor>" using n by (simp add: bitlen_alt_def)
  have "(2::int) ^ nat (bitlen \<lfloor>x\<rfloor> - 1) \<le> \<lfloor>x\<rfloor>"
    using bitlen_bounds[OF n] by simp
  then have "(of_int ((2::int) ^ nat (bitlen \<lfloor>x\<rfloor> - 1)) :: rat) \<le> of_int \<lfloor>x\<rfloor>"
    by (simp only: of_int_le_iff)
  also have "\<dots> \<le> x" by simp
  finally show ?thesis using True b by (simp add: ilog2_def power_int_def)
next
  case False
  with assms have y: "1 < 1 / x" by simp
  then have m: "0 < \<lceil>1 / x\<rceil> - 1" by linarith
  have "\<lceil>1 / x\<rceil> - 1 < 2 ^ nat (bitlen (\<lceil>1 / x\<rceil> - 1))"
    using bitlen_bounds[OF m] by simp
  then have "\<lceil>1 / x\<rceil> \<le> 2 ^ nat (bitlen (\<lceil>1 / x\<rceil> - 1))" by simp
  then have "(of_int \<lceil>1 / x\<rceil> :: rat) \<le> of_int (2 ^ nat (bitlen (\<lceil>1 / x\<rceil> - 1)))"
    by (simp only: of_int_le_iff)
  then have "1 / x \<le> 2 ^ nat (bitlen (\<lceil>1 / x\<rceil> - 1))"
    using le_of_int_ceiling[of "1 / x"] by (simp only: of_int_power of_int_numeral)
  then have "1 / 2 ^ nat (bitlen (\<lceil>1 / x\<rceil> - 1)) \<le> x"
    using assms by (simp add: field_simps)
  moreover have "1 \<le> bitlen (\<lceil>1 / x\<rceil> - 1)"
    using m by (simp add: bitlen_alt_def)
  ultimately show ?thesis using False
    by (simp add: ilog2_def power_int_def inverse_eq_divide power_one_over)
qed

lemma ilog2_upper:
  assumes "0 < x"
  shows "x < 2 powi (ilog2 x + 1)"
proof (cases "1 \<le> x")
  case True
  then have n: "0 < \<lfloor>x\<rfloor>" by linarith
  have "\<lfloor>x\<rfloor> < 2 ^ nat (bitlen \<lfloor>x\<rfloor>)"
    using bitlen_bounds[OF n] by simp
  then have "\<lfloor>x\<rfloor> + 1 \<le> 2 ^ nat (bitlen \<lfloor>x\<rfloor>)" by simp
  then have "(of_int (\<lfloor>x\<rfloor> + 1) :: rat) \<le> of_int (2 ^ nat (bitlen \<lfloor>x\<rfloor>))"
    by (simp only: of_int_le_iff)
  moreover have "x < of_int (\<lfloor>x\<rfloor> + 1)" by linarith
  ultimately have "x < 2 ^ nat (bitlen \<lfloor>x\<rfloor>)" by simp
  then show ?thesis using True bitlen_nonneg[of "\<lfloor>x\<rfloor>"] by (simp add: ilog2_def power_int_def)
next
  case False
  with assms have y: "1 < 1 / x" by simp
  then have m: "0 < \<lceil>1 / x\<rceil> - 1" by linarith
  have b: "1 \<le> bitlen (\<lceil>1 / x\<rceil> - 1)" using m by (simp add: bitlen_alt_def)
  have "2 ^ nat (bitlen (\<lceil>1 / x\<rceil> - 1) - 1) \<le> \<lceil>1 / x\<rceil> - 1"
    using bitlen_bounds[OF m] by simp
  then have "(of_int (2 ^ nat (bitlen (\<lceil>1 / x\<rceil> - 1) - 1)) :: rat) \<le> of_int (\<lceil>1 / x\<rceil> - 1)"
    by (simp only: of_int_le_iff)
  moreover have "of_int (\<lceil>1 / x\<rceil> - 1) < 1 / x"
    using ceiling_correct[of "1 / x"] by simp
  ultimately have "2 ^ nat (bitlen (\<lceil>1 / x\<rceil> - 1) - 1) < 1 / x" by simp
  then have "x < 1 / 2 ^ nat (bitlen (\<lceil>1 / x\<rceil> - 1) - 1)"
    using assms by (simp add: field_simps)
  then show ?thesis using False b
    by (simp add: ilog2_def power_int_def inverse_eq_divide power_one_over)
qed

lemma ilog2_ge:
  assumes "2 powi k \<le> x"
  shows "k \<le> ilog2 x"
proof (rule ccontr)
  assume "\<not> k \<le> ilog2 x"
  then have "ilog2 x + 1 \<le> k" by simp
  then have "(2::rat) powi (ilog2 x + 1) \<le> 2 powi k"
    by (rule power_int_increasing) simp
  moreover have "0 < (2::rat) powi k"
    by simp
  then have "0 < x"
    using assms by linarith
  ultimately show False
    using ilog2_upper[of x] assms by linarith
qed

lemma ilog2_le:
  assumes "0 < x" "x < 2 powi k"
  shows "ilog2 x < k"
proof (rule ccontr)
  assume "\<not> ilog2 x < k"
  then have "(2::rat) powi k \<le> 2 powi (ilog2 x)"
    by (intro power_int_increasing) simp_all
  then show False
    using ilog2_lower[OF assms(1)] assms(2) by simp
qed

lemma to_double_normal:
  assumes "2 powi (- 1022) \<le> x"
  shows "to_double x = of_int (round_half_even (x / 2 powi (ilog2 x - 52))) * 2 powi (ilog2 x - 52)"
proof -
  have "0 < (2::rat) powi (- 1022)"
    by (rule zero_less_power_int) simp
  then have "0 < x"
    using assms by linarith
  moreover have "- 1022 \<le> ilog2 x"
    using assms by (rule ilog2_ge)
  ultimately have "x \<noteq> 0" "\<bar>x\<bar> = x" "max (ilog2 x - 52) (- 1074) = ilog2 x - 52"
    by simp_all
  then show ?thesis
    by (simp only: to_double_def Let_def if_False)
qed

lemma to_double_error:
  assumes "2 powi (- 1022) \<le> x"
  shows "\<bar>to_double x - x\<bar> \<le> x / 2 ^ 53"
proof -
  define p :: rat where "p = 2 powi (ilog2 x - 52)"
  define m where "m = round_half_even (x / p)"
  have "0 < (2::rat) powi (- 1022)"
    by (rule zero_less_power_int) simp
  then have x: "0 < x"
    using assms by linarith
  have p: "0 < p"
    by (simp add: p_def)
  have "\<bar>of_int m - x / p\<bar> \<le> 1 / 2"
    unfolding m_def by (rule round_half_even_bound)
  then have "\<bar>of_int m - x / p\<bar> * p \<le> 1 / 2 * p"
    using p by (intro mult_right_mono) simp_all
  moreover have "\<bar>of_int m - x / p\<bar> * p = \<bar>(of_int m - x / p) * p\<bar>"
    using p by (intro abs_mult_pos) simp
  moreover have "(of_int m - x / p) * p = of_int m * p - x"
    using p by (simp add: left_diff_distrib)
  ultimately have err: "\<bar>of_int m * p - x\<bar> \<le> p / 2"
    by simp
  have "p * 2 ^ 52 = 2 powi (ilog2 x)"
    by (simp add: p_def power_int_diff)
  moreover have "2 powi (ilog2 x) \<le> x"
    using x by (rule ilog2_lower)
  ultimately have "p * 2 ^ 52 \<le> x"
    by simp
  then have "p / 2 \<le> x / 2 ^ 53"
    by simp
  with err have "\<bar>of_int m * p - x\<bar> \<le> x / 2 ^ 53"
    by (rule order_trans)
  then show ?thesis
    by (simp only: to_double_normal[OF assms] m_def p_def)
qed

lemma to_double_of_int:
  assumes "0 \<le> n" "n < 2 ^ 53"
  shows "to_double (of_int n) = of_int n"
proof (cases "n = 0")
  case True
  then show ?thesis by (simp add: to_double_def)
next
  case False
  with assms have n: "1 \<le> n" by simp
  define e where "e = ilog2 (of_int n) - 52"
  have "(2::rat) powi 0 \<le> of_int n" using n by simp
  then have lo: "0 \<le> ilog2 (of_int n)" by (rule ilog2_ge)
  have "(of_int n :: rat) < of_int (2 ^ 53)" using assms(2) by (simp only: of_int_less_iff)
  then have "(of_int n :: rat) < 2 powi 53" by simp
  with n have hi: "ilog2 (of_int n) < 53" by (intro ilog2_le) simp_all
  have e: "e \<le> 0" "- 52 \<le> e" using lo hi by (simp_all add: e_def)
  then have "(of_int n :: rat) / 2 powi e = of_int (n * 2 ^ nat (- e))"
    by (simp add: power_int_def power_inverse[symmetric] field_simps)
  then have "round_half_even (of_int n / 2 powi e) = n * 2 ^ nat (- e)"
    by (simp only: round_half_even_of_int)
  moreover have "(of_int (n * 2 ^ nat (- e)) :: rat) * 2 powi e = of_int n"
    using e by (simp add: power_int_def power_inverse[symmetric] field_simps)
  moreover have "2 powi (- 1022) \<le> (of_int n :: rat)"
  proof -
    have "(2::rat) powi (- 1022) \<le> 2 powi 0" by (rule power_int_increasing) simp_all
    also have "\<dots> \<le> of_int n" using n by simp
    finally show ?thesis .
  qed
  ultimately show ?thesis
    by (simp only: to_double_normal e_def)
qed

lemma to_double_nonpos:
  assumes "x \<le> 0"
  shows "to_double x \<le> 0"
proof (cases "x = 0")
  case True
  then show ?thesis by (simp add: to_double_def)
next
  case False
  define e where "e = max (ilog2 \<bar>x\<bar> - 52) (- 1074)"
  have "x / 2 powi e < 0" using assms False by (simp add: divide_neg_pos)
  then have "\<lfloor>x / 2 powi e\<rfloor> < 0" by linarith
  moreover have "round_half_even (x / 2 powi e) \<le> \<lfloor>x / 2 powi e\<rfloor> + 1"
    by (simp add: round_half_even_def Let_def)
  ultimately have "round_half_even (x / 2 powi e) \<le> 0"
    by linarith
  then have "(of_int (round_half_even (x / 2 powi e)) :: rat) * 2 powi e \<le> 0"
    by (simp add: mult_le_0_iff)
  then show ?thesis using False by (simp add: to_double_def e_def Let_def)
qed

lemma to_double_nonneg:
  assumes "0 \<le> x"
  shows "0 \<le> to_double x"
proof (cases "x = 0")
  case True
  then show ?thesis by (simp add: to_double_def)
next
  case False
  define e where "e = max (ilog2 \<bar>x\<bar> - 52) (- 1074)"
  have "0 \<le> x / 2 powi e"
    using assms by simp
  then have "0 \<le> \<lfloor>x / 2 powi e\<rfloor>"
    by simp
  moreover have "\<lfloor>x / 2 powi e\<rfloor> \<le> round_half_even (x / 2 powi e)"
    by (simp add: round_half_even_def Let_def)
  ultimately have "0 \<le> round_half_even (x / 2 powi e)"
    by linarith
  then have "0 \<le> (of_int (round_half_even (x / 2 powi e)) :: rat) * 2 powi e"
    by simp
  then show ?thesis
    using False by (simp add: to_double_def e_def Let_def)
qed

text \<open>The error of a rounding, for a number of any size: the subnormal numbers are \<open>2\<^sup>-\<^sup>1\<^sup>0\<^sup>7\<^sup>4\<close> apart.\<close>

lemma to_double_error_any:
  assumes "0 \<le> x"
  shows "\<bar>to_double x - x\<bar> \<le> x / 2 ^ 53 + 2 powi (- 1074) / 2"
proof (cases "x = 0")
  case True
  then show ?thesis by (simp add: to_double_def)
next
  case False
  with assms have x: "0 < x"
    by simp
  define e where "e = max (ilog2 x - 52) (- 1074)"
  define p :: rat where "p = 2 powi e"
  define m where "m = round_half_even (x / p)"
  have p: "0 < p"
    by (simp add: p_def)
  have "\<bar>of_int m - x / p\<bar> \<le> 1 / 2"
    unfolding m_def by (rule round_half_even_bound)
  then have "\<bar>of_int m - x / p\<bar> * p \<le> 1 / 2 * p"
    using p by (intro mult_right_mono) simp_all
  moreover have "\<bar>of_int m - x / p\<bar> * p = \<bar>(of_int m - x / p) * p\<bar>"
    using p by (intro abs_mult_pos) simp
  moreover have "(of_int m - x / p) * p = of_int m * p - x"
    using p by (simp add: left_diff_distrib)
  ultimately have err: "\<bar>of_int m * p - x\<bar> \<le> p / 2"
    by simp
  have "p \<le> x / 2 ^ 52 + 2 powi (- 1074)"
  proof (cases "- 1074 \<le> ilog2 x - 52")
    case True
    then have "e = ilog2 x - 52"
      unfolding e_def by (rule max_absorb1)
    then have "p * 2 ^ 52 = 2 powi (ilog2 x)"
      by (simp add: p_def power_int_diff)
    moreover have "2 powi (ilog2 x) \<le> x"
      using x by (rule ilog2_lower)
    ultimately have "p * 2 ^ 52 \<le> x"
      by simp
    then have "p \<le> x / 2 ^ 52"
      by (simp add: field_simps)
    moreover have "0 < (2::rat) powi (- 1074)"
      by (rule zero_less_power_int) simp
    ultimately show ?thesis
      by linarith
  next
    case False
    then have "e = - 1074"
      unfolding e_def by (intro max_absorb2) simp
    then have "p = 2 powi (- 1074)"
      by (simp only: p_def)
    moreover have "0 \<le> x / 2 ^ 52"
      using x by simp
    ultimately show ?thesis
      by linarith
  qed
  then have "p / 2 \<le> x / 2 ^ 53 + 2 powi (- 1074) / 2"
    by simp
  with err have "\<bar>of_int m * p - x\<bar> \<le> x / 2 ^ 53 + 2 powi (- 1074) / 2"
    by (rule order_trans)
  moreover have "to_double x = of_int m * p"
    using x by (simp add: to_double_def Let_def m_def p_def e_def)
  ultimately show ?thesis
    by simp
qed

lemma total_seconds_error:
  assumes "0 < td"
  shows "\<bar>total_seconds td - of_int td / 1000000\<bar> \<le> of_int td / 1000000 / 9007199254740992"
proof -
  have "(2::rat) powi (- 1022) \<le> 2 powi (- 20)"
    by (rule power_int_increasing) simp_all
  also have "\<dots> \<le> 1 / 1000000"
    by (simp add: power_int_minus)
  also have "\<dots> \<le> of_int td / 1000000"
    using assms by simp
  finally have "\<bar>to_double (of_int td / 1000000) - of_int td / 1000000\<bar> \<le> of_int td / 1000000 / 2 ^ 53"
    by (rule to_double_error)
  moreover have "(2::rat) ^ 53 = 9007199254740992"
    by simp
  ultimately show ?thesis
    by (simp only: total_seconds_def)
qed

lemma total_seconds_nonpos: "td \<le> 0 \<Longrightarrow> total_seconds td \<le> 0"
  unfolding total_seconds_def by (rule to_double_nonpos) (simp add: divide_nonpos_pos)

lemma total_seconds_pos: "0 < total_seconds td \<longleftrightarrow> 0 < td"
proof
  assume "0 < total_seconds td"
  then show "0 < td"
    using total_seconds_nonpos[of td] by (cases "0 < td") simp_all
next
  assume td: "0 < td"
  define x :: rat where "x = of_int td / 1000000"
  have "0 < x"
    using td by (simp add: x_def)
  moreover have "\<bar>total_seconds td - x\<bar> \<le> x / 9007199254740992"
    unfolding x_def using td by (rule total_seconds_error)
  ultimately show "0 < total_seconds td"
    by linarith
qed

lemma total_seconds_exact:
  assumes "0 \<le> T" "T \<le> 86400"
  shows "total_seconds (T * 1000000) = of_int T"
proof -
  have "T < 2 ^ 53"
    using assms(2) by simp
  with assms(1) have "to_double (of_int T) = of_int T"
    by (rule to_double_of_int)
  then show ?thesis
    by (simp add: total_seconds_def)
qed

lemma total_seconds_below:
  assumes "0 < T" "T \<le> 86400" "td < T * 1000000"
  shows "total_seconds td < of_int T"
proof (cases "0 < td")
  case False
  then have "total_seconds td \<le> 0"
    by (intro total_seconds_nonpos) simp
  then show ?thesis
    using assms(1) by simp
next
  case True
  define x :: rat where "x = of_int td / 1000000"
  have "td \<le> T * 1000000 - 1"
    using assms(3) by simp
  then have "(of_int td :: rat) \<le> of_int (T * 1000000 - 1)"
    by (simp only: of_int_le_iff)
  then have x: "x \<le> of_int T - 1 / 1000000"
    by (simp add: x_def field_simps)
  have "(of_int T :: rat) \<le> of_int 86400"
    using assms(2) by (simp only: of_int_le_iff)
  then have T: "(of_int T :: rat) \<le> 86400"
    by simp
  have "\<bar>total_seconds td - x\<bar> \<le> x / 9007199254740992"
    unfolding x_def using True by (rule total_seconds_error)
  with x T show ?thesis
    by linarith
qed

lemma total_seconds_above:
  assumes "0 \<le> T" "T \<le> 86400" "T * 1000000 < td"
  shows "of_int T < total_seconds td"
proof -
  define x :: rat where "x = of_int td / 1000000"
  have td: "0 < td"
    using assms(1,3) by linarith
  have "T * 1000000 + 1 \<le> td"
    using assms(3) by simp
  then have "(of_int (T * 1000000 + 1) :: rat) \<le> of_int td"
    by (simp only: of_int_le_iff)
  then have x: "of_int T + 1 / 1000000 \<le> x"
    by (simp add: x_def field_simps)
  have "(of_int T :: rat) \<le> of_int 86400"
    using assms(2) by (simp only: of_int_le_iff)
  then have T: "(of_int T :: rat) \<le> 86400"
    by simp
  have "\<bar>total_seconds td - x\<bar> \<le> x / 9007199254740992"
    unfolding x_def using td by (rule total_seconds_error)
  with x T show ?thesis
    by linarith
qed

lemma total_seconds_le_iff:
  assumes "0 \<le> T" "T \<le> 86400"
  shows "total_seconds td \<le> of_int T \<longleftrightarrow> td \<le> T * 1000000"
proof -
  consider "td < T * 1000000" | "td = T * 1000000" | "T * 1000000 < td"
    by linarith
  then show ?thesis
  proof cases
    case 1
    show ?thesis
    proof (cases "T = 0")
      case True
      with 1 show ?thesis using total_seconds_nonpos[of td] by simp
    next
      case False
      with assms have "0 < T" by simp
      from total_seconds_below[OF this assms(2) 1] 1 show ?thesis by simp
    qed
  next
    case 2
    then show ?thesis using total_seconds_exact[OF assms] by simp
  next
    case 3
    then show ?thesis using total_seconds_above[OF assms 3] by simp
  qed
qed

lemma total_seconds_less_iff:
  assumes "0 < T" "T \<le> 86400"
  shows "total_seconds td < of_int T \<longleftrightarrow> td < T * 1000000"
proof -
  have T: "0 \<le> T"
    using assms(1) by simp
  consider "td < T * 1000000" | "td = T * 1000000" | "T * 1000000 < td"
    by linarith
  then show ?thesis
  proof cases
    case 1
    then show ?thesis using total_seconds_below[OF assms 1] by simp
  next
    case 2
    then show ?thesis using total_seconds_exact[OF T assms(2)] by simp
  next
    case 3
    then show ?thesis using total_seconds_above[OF T assms(2) 3] by simp
  qed
qed

lemma total_seconds_minutes:
  assumes "0 < td" "td < 3600000000"
  shows "\<lfloor>total_seconds td / 60\<rfloor> = td div 60000000"
proof -
  define k where "k = td div 60000000"
  have k: "0 \<le> k" "k < 60" "60 * k * 1000000 \<le> td" "td < 60 * (k + 1) * 1000000"
    using assms by (simp_all add: k_def)
  have "of_int (60 * k) \<le> total_seconds td"
  proof (cases "k = 0")
    case True
    then show ?thesis using assms(1) total_seconds_pos[of td] by simp
  next
    case False
    with k have "\<not> total_seconds td < of_int (60 * k)"
      by (subst total_seconds_less_iff) simp_all
    then show ?thesis by simp
  qed
  moreover have "total_seconds td < of_int (60 * (k + 1))"
    using k by (subst total_seconds_less_iff) simp_all
  ultimately have "of_int k \<le> total_seconds td / 60" "total_seconds td / 60 < of_int k + 1"
    by simp_all
  then show ?thesis
    unfolding k_def[symmetric] by (rule floor_unique)
qed

section \<open>The statistics\<close>

lemma get_user_tasks_listed: "get_user_tasks w user_id sf None = Inr (listed w user_id sf)"
  by (simp add: listed_def get_user_tasks_def category_value_absent split: option.splits)

lemma listed_selected:
  assumes "reachable w" "wf_db (db w)"
  shows "mset (map row_task (listed w owner sf))
           = mset (filter (selected (current_timestamp w) owner sf None) (tasks (db w)))"
  using listing_selected[OF assms category_value_absent(1), of owner sf]
  by (auto simp: get_user_tasks_listed)

lemma count_listing:
  assumes "mset (map row_task rows) = mset (filter S ts)"
  shows "length (filter (\<lambda>r. P (row_task r)) rows) = length (filter (\<lambda>t. S t \<and> P t) ts)"
proof -
  have "length (filter (\<lambda>r. P (row_task r)) rows) = length (filter P (map row_task rows))"
    by (simp add: filter_map comp_def)
  also have "\<dots> = size (filter_mset P (mset (map row_task rows)))"
    by (simp only: mset_filter[symmetric] size_mset)
  also have "\<dots> = size (filter_mset P (mset (filter S ts)))"
    by (simp only: assms)
  also have "\<dots> = length (filter P (filter S ts))"
    by (simp only: mset_filter[symmetric] size_mset)
  finally show ?thesis
    by simp
qed

lemma round_half_even_tie:
  assumes "\<bar>of_int (round_half_even y) - y\<bar> = 1 / 2"
  shows "even (round_half_even y)"
proof -
  have f: "of_int \<lfloor>y\<rfloor> \<le> y" "y < of_int \<lfloor>y\<rfloor> + 1"
    by linarith+
  show ?thesis
  proof (cases "y - of_int \<lfloor>y\<rfloor> < 1 / 2")
    case True
    then have "round_half_even y = \<lfloor>y\<rfloor>"
      by (simp add: round_half_even_def)
    with assms f True show ?thesis
      by simp
  next
    case False
    show ?thesis
    proof (cases "1 / 2 < y - of_int \<lfloor>y\<rfloor>")
      case True
      with False have "round_half_even y = \<lfloor>y\<rfloor> + 1"
        by (simp add: round_half_even_def)
      with assms f True show ?thesis
        by simp
    next
      case half: False
      with False show ?thesis
        by (auto simp: round_half_even_def Let_def)
    qed
  qed
qed

text \<open>
  \<^verbatim>\<open>completed / total * 100\<close> on floats is the percentage but for two roundings, which
  together change it by less than a part in a million millions.
\<close>

lemma percentage_float:
  assumes "0 \<le> c" "c \<le> t" "0 < t"
  shows "\<bar>float_mul (int_truediv c t) 100 - percentage c t\<bar> \<le> 1 / 10 ^ 12"
proof -
  define q :: rat where "q = of_int c / of_int t"
  define x where "x = to_double q"
  define y where "y = to_double (x * 100)"
  define d :: rat where "d = 2 powi (- 1074) / 2"
  have "(2::rat) powi (- 1074) \<le> 2 powi (- 60)"
    by (rule power_int_increasing) simp_all
  also have "\<dots> = 1 / 2 ^ 60"
    by (simp add: power_int_minus field_simps)
  finally have d: "d \<le> 1 / 2 ^ 61"
    by (simp add: d_def)
  have q: "0 \<le> q" "q \<le> 1"
    using assms by (simp_all add: q_def)
  have x0: "0 \<le> x"
    unfolding x_def using q(1) by (rule to_double_nonneg)
  have ex: "\<bar>x - q\<bar> \<le> q / 2 ^ 53 + d"
    unfolding x_def d_def using q(1) by (rule to_double_error_any)
  have "0 \<le> x * 100"
    using x0 by simp
  then have ey: "\<bar>y - x * 100\<bar> \<le> x * 100 / 2 ^ 53 + d"
    unfolding y_def d_def by (rule to_double_error_any)
  have d': "d \<le> 1 / 2305843009213693952"
    using d by simp
  have ex': "\<bar>x - q\<bar> \<le> q / 9007199254740992 + d"
    using ex by simp
  have ey': "\<bar>y - x * 100\<bar> \<le> x * 100 / 9007199254740992 + d"
    using ey by simp
  have "x \<le> 2"
    using q ex' d' by linarith
  with q ex' ey' d' have "\<bar>y - 100 * q\<bar> \<le> 1 / 1000000000000"
    by linarith
  then have "\<bar>y - 100 * q\<bar> \<le> 1 / 10 ^ 12"
    by simp
  moreover have "percentage c t = 100 * q"
    by (simp add: percentage_def q_def)
  moreover have "float_mul (int_truediv c t) 100 = y"
    by (simp add: float_mul_def int_truediv_def y_def x_def q_def)
  ultimately show ?thesis
    by simp
qed

lemma one_decimal:
  fixes p :: rat
  defines "k \<equiv> round_half_even (p * 10)"
  shows "\<bar>of_int k / 10 - p\<bar> \<le> 1 / 20"
    and "\<bar>of_int k / 10 - p\<bar> = 1 / 20 \<longrightarrow> even k"
    and "py_round (PyFloat p) 1 = PyFloat (to_double (of_int k / 10))"
proof -
  have e: "\<bar>of_int k / 10 - p\<bar> = \<bar>of_int k - p * 10\<bar> / 10"
    by (simp add: abs_if field_simps)
  have "\<bar>of_int k - p * 10\<bar> \<le> 1 / 2"
    unfolding k_def by (rule round_half_even_bound)
  then show "\<bar>of_int k / 10 - p\<bar> \<le> 1 / 20"
    unfolding e by simp
  show "\<bar>of_int k / 10 - p\<bar> = 1 / 20 \<longrightarrow> even k"
  proof
    assume "\<bar>of_int k / 10 - p\<bar> = 1 / 20"
    then have "\<bar>of_int k - p * 10\<bar> = 1 / 2"
      unfolding e by simp
    then show "even k"
      unfolding k_def by (rule round_half_even_tie)
  qed
  show "py_round (PyFloat p) 1 = PyFloat (to_double (of_int k / 10))"
    by (simp add: k_def)
qed

text \<open>
  C2. The statistics count the tasks of the unfiltered listing: all of them, the completed
  ones, the rest as pending, and the overdue ones. When there is a task, the completion
  rate is \<^verbatim>\<open>completed / total * 100\<close>, a float within a part in a million millions of the
  percentage, rounded to one decimal: the double of the number of tenths nearest to that
  float, the even number when two are as near. When there is no task the rate is \<open>0\<close>, and an
  empty listing gives zero throughout. On a reachable store that keeps the declarations of
  its schema, the counts are those of the owner's tasks in the table.
\<close>

theorem calculate_stats_counts:
  "\<exists>listing s.
     get_user_tasks w user_id None None = Inr listing
     \<and> calculate_stats w user_id = Inr s
     \<and> s_total s = int (length listing)
     \<and> s_completed s = int (length (filter (\<lambda>t. t_completed (row_task t)) listing))
     \<and> s_pending s = s_total s - s_completed s
     \<and> s_pending s + s_completed s = s_total s
     \<and> 0 \<le> s_pending s
     \<and> s_overdue s = int (length (filter (\<lambda>t. is_overdue (datetime_now w) (row_task t)) listing))
     \<and> (0 < s_total s \<longrightarrow>
          (\<exists>p k. p = float_mul (int_truediv (s_completed s) (s_total s)) 100
             \<and> \<bar>p - percentage (s_completed s) (s_total s)\<bar> \<le> 1 / 10 ^ 12
             \<and> \<bar>of_int k / 10 - p\<bar> \<le> 1 / 20
             \<and> (\<bar>of_int k / 10 - p\<bar> = 1 / 20 \<longrightarrow> even k)
             \<and> s_completion_rate s = PyFloat (to_double (of_int k / 10))
             \<and> s_completion_rate s = py_round (PyFloat p) 1))
     \<and> (s_total s = 0 \<longrightarrow> s_completion_rate s = PyInt 0)
     \<and> (listing = [] \<longrightarrow>
          s = \<lparr> s_total = 0, s_completed = 0, s_pending = 0, s_overdue = 0, s_completion_rate = PyInt 0 \<rparr>)
     \<and> (reachable w \<and> wf_db (db w) \<longrightarrow>
          s_total s = int (length (filter (\<lambda>t. t_user_id t = user_id) (tasks (db w))))
          \<and> s_completed s = int (length (filter (\<lambda>t. t_user_id t = user_id \<and> t_completed t) (tasks (db w))))
          \<and> s_overdue s
              = int (length (filter (\<lambda>t. t_user_id t = user_id \<and> is_overdue (datetime_now w) t) (tasks (db w)))))"
proof -
  define listing where "listing = listed w user_id None"
  define total where "total = int (length listing)"
  define completed where "completed = int (length (filter (\<lambda>t. t_completed (row_task t)) listing))"
  define overdue where
    "overdue = int (length (filter (\<lambda>t. is_overdue (datetime_now w) (row_task t)) listing))"
  define rate where
    "rate = py_round (if total > 0 then PyFloat (float_mul (int_truediv completed total) 100) else PyInt 0) 1"
  define s where "s = \<lparr> s_total = total, s_completed = completed, s_pending = total - completed,
                         s_overdue = overdue, s_completion_rate = rate \<rparr>"
  have l: "get_user_tasks w user_id None None = Inr listing"
    by (simp add: listing_def get_user_tasks_listed)
  have c: "calculate_stats w user_id = Inr s"
    by (simp add: calculate_stats_def l Let_def s_def total_def completed_def overdue_def rate_def
          is_overdue_def)
  have f: "s_total s = total" "s_completed s = completed" "s_pending s = total - completed"
    "s_overdue s = overdue" "s_completion_rate s = rate"
    by (simp_all add: s_def)
  have b: "0 \<le> completed" "completed \<le> total"
    by (simp_all add: completed_def total_def)
  have r: "0 < total \<longrightarrow>
          (\<exists>p k. p = float_mul (int_truediv completed total) 100
             \<and> \<bar>p - percentage completed total\<bar> \<le> 1 / 10 ^ 12
             \<and> \<bar>of_int k / 10 - p\<bar> \<le> 1 / 20
             \<and> (\<bar>of_int k / 10 - p\<bar> = 1 / 20 \<longrightarrow> even k)
             \<and> rate = PyFloat (to_double (of_int k / 10))
             \<and> rate = py_round (PyFloat p) 1)"
  proof
    assume t: "0 < total"
    define p where "p = float_mul (int_truediv completed total) 100"
    have "rate = py_round (PyFloat p) 1"
      using t by (simp only: rate_def p_def if_True)
    with one_decimal[of p] percentage_float[OF b t] show "\<exists>p k. p = float_mul (int_truediv completed total) 100
             \<and> \<bar>p - percentage completed total\<bar> \<le> 1 / 10 ^ 12
             \<and> \<bar>of_int k / 10 - p\<bar> \<le> 1 / 20
             \<and> (\<bar>of_int k / 10 - p\<bar> = 1 / 20 \<longrightarrow> even k)
             \<and> rate = PyFloat (to_double (of_int k / 10))
             \<and> rate = py_round (PyFloat p) 1"
      unfolding p_def[symmetric]
      by (intro exI[of _ p] exI[of _ "round_half_even (p * 10)"]) (simp only: p_def simp_thms)
  qed
  have z: "total = 0 \<longrightarrow> rate = PyInt 0"
    by (simp add: rate_def)
  have e: "listing = [] \<longrightarrow>
          s = \<lparr> s_total = 0, s_completed = 0, s_pending = 0, s_overdue = 0, s_completion_rate = PyInt 0 \<rparr>"
    by (simp add: s_def total_def completed_def overdue_def rate_def)
  have d: "reachable w \<and> wf_db (db w) \<longrightarrow>
          total = int (length (filter (\<lambda>t. t_user_id t = user_id) (tasks (db w))))
          \<and> completed = int (length (filter (\<lambda>t. t_user_id t = user_id \<and> t_completed t) (tasks (db w))))
          \<and> overdue
              = int (length (filter (\<lambda>t. t_user_id t = user_id \<and> is_overdue (datetime_now w) t) (tasks (db w))))"
  proof
    assume "reachable w \<and> wf_db (db w)"
    then have "mset (map row_task listing)
                 = mset (filter (selected (current_timestamp w) user_id None None) (tasks (db w)))"
      unfolding listing_def by (intro listed_selected) simp_all
    then have m: "mset (map row_task listing) = mset (filter (\<lambda>t. t_user_id t = user_id) (tasks (db w)))"
      by (simp add: selected_def)
    from count_listing[OF m, of "\<lambda>t. True"] count_listing[OF m, of t_completed]
      count_listing[OF m, of "is_overdue (datetime_now w)"]
    show "total = int (length (filter (\<lambda>t. t_user_id t = user_id) (tasks (db w))))
          \<and> completed = int (length (filter (\<lambda>t. t_user_id t = user_id \<and> t_completed t) (tasks (db w))))
          \<and> overdue
              = int (length (filter (\<lambda>t. t_user_id t = user_id \<and> is_overdue (datetime_now w) t) (tasks (db w))))"
      by (simp add: total_def completed_def overdue_def)
  qed
  from l c b r z e d show ?thesis
    by (intro exI[of _ listing] exI[of _ s]) (simp only: f total_def[symmetric] completed_def[symmetric]
          overdue_def[symmetric], simp)
qed

text \<open>
  The scenario of the specification: two tasks, one of them completed, give a rate of
  \<open>50.0\<close>. One of three gives \<open>33.3\<close>, the double nearest to it, and one of sixteen, \<open>6.25\<close>
  in a hundred, gives \<open>6.2\<close>, the even one of the two tenths as near.
\<close>

lemma two_tasks_stats:
  "calculate_stats two_tasks_world alice
     = Inr \<lparr> s_total = 2, s_completed = 1, s_pending = 1, s_overdue = 0, s_completion_rate = PyFloat 50 \<rparr>"
  by code_simp

lemma rounding_examples:
  "py_round (PyFloat (float_mul (int_truediv 1 3) 100)) 1 = PyFloat (2343279181116211 / 70368744177664)"
  "py_round (PyFloat (float_mul (int_truediv 1 16) 100)) 1 = PyFloat (6980579422424269 / 1125899906842624)"
  "float_mul (int_truediv 1 16) 100 = 25 / 4"
  "py_round (PyInt 0) 1 = PyInt 0"
  by code_simp+

lemma example_listing:
  "get_user_tasks example_world alice None None
     = Inr [make_row (call, None), make_row (rent, None), make_row (report, Some work)]"
  by code_simp

lemma third_float: "float_mul (int_truediv 1 3) 100 = 2345624805922133 / 70368744177664"
  by code_simp

lemma double_33_3: "to_double (333 / 10) = 2343279181116211 / 70368744177664"
  by code_simp

theorem calculate_stats_counts_witness:
  "reachable example_world \<and> wf_db (db example_world)
   \<and> length (filter (\<lambda>t. t_user_id t = alice) (tasks (db example_world))) = 3
   \<and> calculate_stats example_world alice
       = Inr \<lparr> s_total = 3, s_completed = 1, s_pending = 2, s_overdue = 0,
                s_completion_rate = PyFloat (2343279181116211 / 70368744177664) \<rparr>"
proof -
  from calculate_stats_counts[of example_world alice] obtain listing s where
    l: "get_user_tasks example_world alice None None = Inr listing"
    and s: "calculate_stats example_world alice = Inr s"
    and t: "s_total s = int (length listing)"
    and c: "s_completed s = int (length (filter (\<lambda>t. t_completed (row_task t)) listing))"
    and p: "s_pending s = s_total s - s_completed s"
    and o: "s_overdue s = int (length (filter (\<lambda>t. is_overdue (datetime_now example_world) (row_task t)) listing))"
    and r: "0 < s_total s \<longrightarrow>
          (\<exists>p k. p = float_mul (int_truediv (s_completed s) (s_total s)) 100
             \<and> \<bar>p - percentage (s_completed s) (s_total s)\<bar> \<le> 1 / 10 ^ 12
             \<and> \<bar>of_int k / 10 - p\<bar> \<le> 1 / 20
             \<and> (\<bar>of_int k / 10 - p\<bar> = 1 / 20 \<longrightarrow> even k)
             \<and> s_completion_rate s = PyFloat (to_double (of_int k / 10))
             \<and> s_completion_rate s = py_round (PyFloat p) 1)"
    by blast
  from l have listing: "listing = [make_row (call, None), make_row (rent, None), make_row (report, Some work)]"
    by (simp add: example_listing)
  have t': "s_total s = 3"
    by (simp add: t listing)
  have c': "s_completed s = 1"
    by (simp add: c listing make_row_def call_def rent_def report_def)
  have p': "s_pending s = 2"
    by (simp add: p t' c')
  have o': "s_overdue s = 0"
    by (simp add: o listing is_overdue_def make_row_def call_def rent_def report_def example_world_def noon_def)
  from r obtain k :: int where
    k: "\<bar>of_int k / 10 - float_mul (int_truediv 1 3) 100\<bar> \<le> 1 / 20"
    and rate: "s_completion_rate s = PyFloat (to_double (of_int k / 10))"
    unfolding t' c' by auto
  from k have "(of_int k :: rat) < 334" and "332 < (of_int k :: rat)"
    unfolding third_float by linarith+
  then have "k < 334" and "332 < k"
    by simp_all
  then have "k = 333"
    by linarith
  then have r': "s_completion_rate s = PyFloat (2343279181116211 / 70368744177664)"
    using rate by (simp add: double_33_3)
  have "s = \<lparr> s_total = 3, s_completed = 1, s_pending = 2, s_overdue = 0,
              s_completion_rate = PyFloat (2343279181116211 / 70368744177664) \<rparr>"
    by (rule stats.equality) (simp_all add: t' c' p' o' r')
  moreover have "length (filter (\<lambda>t. t_user_id t = alice) (tasks (db example_world))) = 3"
    by (simp add: example_defs)
  ultimately show ?thesis
    using s example_reachable wf_example by simp
qed

section \<open>The notifications\<close>

lemma total_seconds_window:
  "0 < total_seconds td \<and> total_seconds td \<le> 86400 \<longleftrightarrow> 0 < td \<and> td \<le> 86400000000"
  using total_seconds_le_iff[of 86400 td] by (simp add: total_seconds_pos)

lemma total_seconds_urgent: "total_seconds td < 3600 \<longleftrightarrow> td < 3600000000"
  using total_seconds_less_iff[of 3600 td] by simp

lemma minutes_left:
  assumes "0 < td" "td < 3600000000"
  shows "int_of_float (float_floordiv (total_seconds td) 60) = td div 60000000"
proof -
  have "0 \<le> td div 60000000"
    using assms(1) by simp
  then show ?thesis
    by (simp add: int_of_float_def float_floordiv_def total_seconds_minutes[OF assms])
qed

lemma notifications_loop_eq:
  "notifications_loop now rows acc = acc @ List.map_filter (notification_for now) rows"
proof (induction rows arbitrary: acc)
  case Nil
  then show ?case by simp
next
  case (Cons r rows)
  show ?case
  proof (cases "t_due_date (row_task r)")
    case None
    then show ?thesis
      by (simp add: Cons.IH notification_for_def)
  next
    case (Some due)
    then show ?thesis
      by (simp add: Cons.IH notification_for_def Let_def
            total_seconds_window total_seconds_urgent minutes_left)
  qed
qed

lemma seconds_to_due_pos: "0 < seconds_to_due now due \<longleftrightarrow> 0 < due - now"
  by (simp add: seconds_to_due_def)

lemma seconds_to_due_le: "seconds_to_due now due \<le> 86400 \<longleftrightarrow> due - now \<le> 86400000000"
  by (simp add: seconds_to_due_def field_simps) linarith

lemma seconds_to_due_less: "seconds_to_due now due < 3600 \<longleftrightarrow> due - now < 3600000000"
  by (simp add: seconds_to_due_def field_simps) linarith

lemma seconds_to_due_minutes: "\<lfloor>seconds_to_due now due / 60\<rfloor> = (due - now) div 60000000"
proof -
  have "seconds_to_due now due / 60 = of_int (due - now) / of_int 60000000"
    by (simp add: seconds_to_due_def)
  then show ?thesis
    by (simp only: floor_divide_of_int_eq)
qed

lemma n_task_notification_for:
  "map_option n_task (notification_for now r) = (if due_within_24h now r then Some r else None)"
  by (simp add: notification_for_def due_within_24h_def seconds_to_due_pos seconds_to_due_le
        split: option.split)

lemma n_task_map_filter:
  "map n_task (List.map_filter (notification_for now) rows) = filter (due_within_24h now) rows"
proof (induction rows)
  case Nil
  then show ?case by simp
next
  case (Cons r rows)
  then show ?case
    using n_task_notification_for[of now r]
    by (cases "notification_for now r") (auto split: if_splits)
qed

lemma notification_for_fields:
  assumes "notification_for now r = Some n"
  shows "n_task n = r" and "t_due_date (row_task r) = Some (n_due_date n)"
    and "n_urgency n = (if n_due_date n - now < 3600000000 then ''urgent'' else ''today'')"
    and "n_message n = (if n_due_date n - now < 3600000000
                        then ''Due in '' @ str_int ((n_due_date n - now) div 60000000) @ '' minutes''
                        else ''Due today at '' @ strftime_HM (n_due_date n))"
  using assms by (auto simp: notification_for_def split: option.splits if_splits)

lemma get_due_notifications_eq:
  "get_due_notifications w user_id =
     Inr (sort_key n_due_date
            (List.map_filter (notification_for (datetime_now w)) (listed w user_id (Some ''pending''))))"
  by (simp add: get_due_notifications_def get_user_tasks_listed notifications_loop_eq)

lemma in_map_filter: "y \<in> set (List.map_filter f xs) \<longleftrightarrow> (\<exists>x \<in> set xs. f x = Some y)"
  by (induction xs) (auto split: option.splits)

lemma in_notifications:
  "n \<in> set (sort_key n_due_date (List.map_filter (notification_for now) rows))
     \<longleftrightarrow> (\<exists>r \<in> set rows. notification_for now r = Some n)"
  by (simp add: in_map_filter)

lemma notification_for_window:
  assumes "notification_for now r = Some n"
  shows "0 < seconds_to_due now (n_due_date n)" and "seconds_to_due now (n_due_date n) \<le> 86400"
  using assms
  by (auto simp: notification_for_def seconds_to_due_pos seconds_to_due_le split: option.splits if_splits)

text \<open>The text of a number and of a time of day, as Python writes them.\<close>

lemma digit_decimal:
  assumes "n < 10"
  shows "digit n = decimal_digit n"
proof -
  have "\<forall>n \<in> set [0..<10]. digit n = decimal_digit n"
    by code_simp
  with assms show ?thesis
    by simp
qed

lemma str_nat_minutes:
  assumes "m < 100"
  shows "str_nat m = minutes_text m"
proof (cases "m < 10")
  case True
  then show ?thesis
    by (simp add: str_nat.simps[of m] minutes_text_def digit_decimal)
next
  case False
  with assms have "m div 10 < 10" "m mod 10 < 10"
    by simp_all
  with False show ?thesis
    by (simp add: str_nat.simps[of m] str_nat.simps[of "m div 10"] minutes_text_def digit_decimal)
qed

lemma str_int_minutes:
  assumes "0 \<le> i" "i < 100"
  shows "str_int i = minutes_text (nat i)"
  using assms by (simp add: str_int_def str_nat_minutes)

lemma hour_of_day: "(d::int) div 3600000000 mod 24 = d mod 86400000000 div 3600000000"
  by (simp add: zmod_zmult2_eq[of 24 d 3600000000, simplified])

lemma minute_of_hour: "(d::int) div 60000000 mod 60 = d mod 3600000000 div 60000000"
  by (simp add: zmod_zmult2_eq[of 60 d 60000000, simplified])

lemma two_digits_decimal:
  assumes "n < 100"
  shows "two_digits n = [decimal_digit (n div 10), decimal_digit (n mod 10)]"
proof -
  from assms have "n div 10 < 10" "n mod 10 < 10"
    by simp_all
  then show ?thesis
    by (simp add: two_digits_def digit_decimal)
qed

lemma strftime_HM_clock: "strftime_HM d = clock_text d"
proof -
  have "nat (d mod 86400000000 div 3600000000) < 100"
    by (simp add: hour_of_day[symmetric] nat_less_iff) 
  moreover have "nat (d mod 3600000000 div 60000000) < 100"
    by (simp add: minute_of_hour[symmetric] nat_less_iff)
  ultimately show ?thesis
    by (simp add: strftime_HM_def clock_text_def hour_of_day minute_of_hour two_digits_decimal Let_def)
qed

text \<open>
  C3. The notifications are made for exactly the pending tasks of the owner that are due
  within the next twenty-four hours, one for each, with the due date of its task, and they
  are in ascending order of due date.
\<close>

theorem get_due_notifications_selects:
  "\<exists>pending ns.
     get_user_tasks w user_id (Some ''pending'') None = Inr pending
     \<and> get_due_notifications w user_id = Inr ns
     \<and> mset (map n_task ns) = mset (filter (due_within_24h (datetime_now w)) pending)
     \<and> sorted (map n_due_date ns)
     \<and> (\<forall>n \<in> set ns. t_due_date (row_task (n_task n)) = Some (n_due_date n))"
proof -
  let ?pending = "listed w user_id (Some ''pending'')"
  let ?found = "List.map_filter (notification_for (datetime_now w)) ?pending"
  let ?ns = "sort_key n_due_date ?found"
  have "mset (map n_task ?ns) = image_mset n_task (mset ?ns)"
    by simp
  also have "\<dots> = mset (map n_task ?found)"
    by (simp only: mset_sort mset_map)
  finally have 1: "mset (map n_task ?ns) = mset (filter (due_within_24h (datetime_now w)) ?pending)"
    by (simp only: n_task_map_filter)
  have 2: "sorted (map n_due_date ?ns)"
    by (rule sorted_sort_key)
  have 3: "\<forall>n \<in> set ?ns. t_due_date (row_task (n_task n)) = Some (n_due_date n)"
  proof
    fix n
    assume "n \<in> set ?ns"
    then obtain r where "notification_for (datetime_now w) r = Some n"
      unfolding in_notifications by blast
    then show "t_due_date (row_task (n_task n)) = Some (n_due_date n)"
      using notification_for_fields(1,2) by metis
  qed
  from 1 2 3 show ?thesis
    using get_user_tasks_listed[of w user_id "Some ''pending''"] get_due_notifications_eq[of w user_id]
    by blast
qed

text \<open>
  C4. The time to the due date of a notification is more than nothing and at most
  twenty-four hours. A notification whose task is due in less than an hour is \<open>urgent\<close> and
  reads \<^verbatim>\<open>Due in N minutes\<close>, \<open>N\<close> being the whole minutes that remain, in decimal; one due in
  an hour or more is \<open>today\<close> and reads \<^verbatim>\<open>Due today at HH:MM\<close>, the time of day of the due
  date. A pending task due in exactly thirty minutes has a notification, \<open>urgent\<close>, reading
  \<^verbatim>\<open>Due in 30 minutes\<close>.
\<close>

theorem notification_urgency_message:
  "\<exists>pending ns.
     get_user_tasks w user_id (Some ''pending'') None = Inr pending
     \<and> get_due_notifications w user_id = Inr ns
     \<and> (\<forall>n \<in> set ns.
          0 < seconds_to_due (datetime_now w) (n_due_date n)
          \<and> seconds_to_due (datetime_now w) (n_due_date n) \<le> 86400
          \<and> (seconds_to_due (datetime_now w) (n_due_date n) < 3600 \<longrightarrow>
               n_urgency n = ''urgent''
               \<and> n_message n
                   = ''Due in '' @ minutes_text (nat \<lfloor>seconds_to_due (datetime_now w) (n_due_date n) / 60\<rfloor>)
                       @ '' minutes'')
          \<and> (3600 \<le> seconds_to_due (datetime_now w) (n_due_date n) \<longrightarrow>
               n_urgency n = ''today''
               \<and> n_message n = ''Due today at '' @ clock_text (n_due_date n)))
     \<and> (\<forall>r \<in> set pending.
          t_due_date (row_task r) = Some (datetime_now w + 1800000000) \<longrightarrow>
          (\<exists>n \<in> set ns. n_task n = r \<and> n_urgency n = ''urgent'' \<and> n_message n = ''Due in 30 minutes''))"
proof -
  let ?now = "datetime_now w"
  let ?pending = "listed w user_id (Some ''pending'')"
  let ?ns = "sort_key n_due_date (List.map_filter (notification_for ?now) ?pending)"
  have 1: "\<forall>n \<in> set ?ns.
          0 < seconds_to_due ?now (n_due_date n)
          \<and> seconds_to_due ?now (n_due_date n) \<le> 86400
          \<and> (seconds_to_due ?now (n_due_date n) < 3600 \<longrightarrow>
               n_urgency n = ''urgent''
               \<and> n_message n
                   = ''Due in '' @ minutes_text (nat \<lfloor>seconds_to_due ?now (n_due_date n) / 60\<rfloor>) @ '' minutes'')
          \<and> (3600 \<le> seconds_to_due ?now (n_due_date n) \<longrightarrow>
               n_urgency n = ''today''
               \<and> n_message n = ''Due today at '' @ clock_text (n_due_date n))"
  proof (intro ballI conjI impI)
    fix n
    assume "n \<in> set ?ns"
    then obtain r where r: "notification_for ?now r = Some n"
      unfolding in_notifications by blast
    note f = notification_for_fields[OF r]
    show pos: "0 < seconds_to_due ?now (n_due_date n)"
      and "seconds_to_due ?now (n_due_date n) \<le> 86400"
      using notification_for_window[OF r] by simp_all
    {
      assume "seconds_to_due ?now (n_due_date n) < 3600"
      then have u: "n_due_date n - ?now < 3600000000"
        by (simp only: seconds_to_due_less)
      from pos have "0 < n_due_date n - ?now"
        by (simp only: seconds_to_due_pos)
      with u have "0 \<le> (n_due_date n - ?now) div 60000000" "(n_due_date n - ?now) div 60000000 < 100"
        by simp_all
      then have "str_int ((n_due_date n - ?now) div 60000000)
                   = minutes_text (nat ((n_due_date n - ?now) div 60000000))"
        by (rule str_int_minutes)
      with u show "n_urgency n = ''urgent''"
        and "n_message n
               = ''Due in '' @ minutes_text (nat \<lfloor>seconds_to_due ?now (n_due_date n) / 60\<rfloor>) @ '' minutes''"
        using f(3,4) by (simp_all add: seconds_to_due_minutes)
    }
    {
      assume "3600 \<le> seconds_to_due ?now (n_due_date n)"
      then have "\<not> n_due_date n - ?now < 3600000000"
        using seconds_to_due_less[of ?now "n_due_date n"] by simp
      then show "n_urgency n = ''today''" and "n_message n = ''Due today at '' @ clock_text (n_due_date n)"
        using f(3,4) by (simp_all add: strftime_HM_clock)
    }
  qed
  have 2: "\<forall>r \<in> set ?pending.
          t_due_date (row_task r) = Some (?now + 1800000000) \<longrightarrow>
          (\<exists>n \<in> set ?ns. n_task n = r \<and> n_urgency n = ''urgent'' \<and> n_message n = ''Due in 30 minutes'')"
  proof (intro ballI impI)
    fix r
    assume r: "r \<in> set ?pending" and d: "t_due_date (row_task r) = Some (?now + 1800000000)"
    have s: "str_int 30 = ''30''"
      by code_simp
    define n where "n = \<lparr> n_task = r, n_urgency = ''urgent'', n_message = ''Due in 30 minutes'',
                          n_due_date = ?now + 1800000000 \<rparr>"
    have "notification_for ?now r = Some n"
      using d by (simp add: notification_for_def n_def s)
    with r have "n \<in> set ?ns"
      unfolding in_notifications by blast
    then show "\<exists>n \<in> set ?ns. n_task n = r \<and> n_urgency n = ''urgent'' \<and> n_message n = ''Due in 30 minutes''"
      by (rule bexI[rotated]) (simp add: n_def)
  qed
  from 1 2 show ?thesis
    using get_user_tasks_listed[of w user_id "Some ''pending''"] get_due_notifications_eq[of w user_id]
    by blast
qed

lemma example_pending:
  "get_user_tasks example_world alice (Some ''pending'') None
     = Inr [make_row (call, None), make_row (report, Some work)]"
  by code_simp

lemma example_due_soon:
  "filter (due_within_24h (datetime_now example_world)) [make_row (call, None), make_row (report, Some work)]
     = [make_row (call, None), make_row (report, Some work)]"
  by (simp add: due_within_24h_def seconds_to_due_pos seconds_to_due_le make_row_def example_defs)

theorem get_due_notifications_selects_witness:
  "\<exists>ns. get_due_notifications example_world alice = Inr ns
     \<and> mset (map n_task ns) = mset [make_row (call, None), make_row (report, Some work)]
     \<and> sorted (map n_due_date ns)
     \<and> ns \<noteq> []"
proof -
  from get_due_notifications_selects[of example_world alice] obtain pending ns where
    p: "get_user_tasks example_world alice (Some ''pending'') None = Inr pending"
    and n: "get_due_notifications example_world alice = Inr ns"
    and m: "mset (map n_task ns) = mset (filter (due_within_24h (datetime_now example_world)) pending)"
    and s: "sorted (map n_due_date ns)"
    by blast
  from p have "pending = [make_row (call, None), make_row (report, Some work)]"
    by (simp add: example_pending)
  with m have m': "mset (map n_task ns) = mset [make_row (call, None), make_row (report, Some work)]"
    by (simp only: example_due_soon)
  then have "mset (map n_task ns) \<noteq> {#}"
    by simp
  then have "ns \<noteq> []"
    by auto
  with n m' s show ?thesis
    by blast
qed

text \<open>
  On the store of the examples, at noon: the task of \<open>alice\<close> due at half past twelve and
  the one due at noon of the next day, and the task of \<open>bob\<close> due at five in the afternoon.
  And the tasks of \<open>alice\<close> again a microsecond after 12:22, when a microsecond less than
  eight minutes remain for the first.
\<close>

lemma example_due_dates:
  "map_sum (\<lambda>e. e) (map (\<lambda>n. (t_title (row_task (n_task n)), n_due_date n)))
       (get_due_notifications example_world alice)
     = Inr [(''Report'', 45000000000), (''Call'', 129600000000)]"
  "map_sum (\<lambda>e. e) (map (\<lambda>n. (t_title (row_task (n_task n)), n_due_date n)))
       (get_due_notifications example_world bob)
     = Inr [(''Groceries'', 61200000000)]"
  "map_sum (\<lambda>e. e) (map (\<lambda>n. (t_title (row_task (n_task n)), n_due_date n)))
       (get_due_notifications (example_world\<lparr> datetime_now := 44520000001 \<rparr>) alice)
     = Inr [(''Report'', 45000000000), (''Call'', 129600000000)]"
  by code_simp+

lemma example_texts:
  "minutes_text 30 = ''30''" "minutes_text 7 = ''7''"
  "clock_text 129600000000 = ''12:00''" "clock_text 61200000000 = ''17:00''"
  by code_simp+

lemma clock_text_examples:
  "clock_text 0 = ''00:00''" "clock_text 86399999999 = ''23:59''" "clock_text 86400000000 = ''00:00''"
  "clock_text 32940000000 = ''09:09''" "minutes_text 0 = ''0''" "minutes_text 59 = ''59''"
  by code_simp+

theorem notification_urgency_message_witness:
  "map_sum (\<lambda>e. e) (map (\<lambda>n. (t_title (row_task (n_task n)), n_urgency n, n_message n)))
       (get_due_notifications example_world alice)
     = Inr [(''Report'', ''urgent'', ''Due in 30 minutes''), (''Call'', ''today'', ''Due today at 12:00'')]
   \<and> map_sum (\<lambda>e. e) (map (\<lambda>n. (t_title (row_task (n_task n)), n_urgency n, n_message n)))
       (get_due_notifications example_world bob)
     = Inr [(''Groceries'', ''today'', ''Due today at 17:00'')]
   \<and> map_sum (\<lambda>e. e) (map (\<lambda>n. (t_title (row_task (n_task n)), n_urgency n, n_message n)))
       (get_due_notifications (example_world\<lparr> datetime_now := 44520000001 \<rparr>) alice)
     = Inr [(''Report'', ''urgent'', ''Due in 7 minutes''), (''Call'', ''today'', ''Due today at 12:00'')]"
proof -
  have now: "datetime_now example_world = 43200000000"
    by (simp add: example_world_def noon_def)
  have now': "datetime_now (example_world\<lparr> datetime_now := 44520000001 \<rparr>) = 44520000001"
    by simp
  from notification_urgency_message[of "example_world\<lparr> datetime_now := 44520000001 \<rparr>" alice] obtain ls where
    l: "get_due_notifications (example_world\<lparr> datetime_now := 44520000001 \<rparr>) alice = Inr ls"
    and u'': "\<And>n. n \<in> set ls \<Longrightarrow> seconds_to_due 44520000001 (n_due_date n) < 3600 \<Longrightarrow>
               n_urgency n = ''urgent''
               \<and> n_message n
                   = ''Due in '' @ minutes_text (nat \<lfloor>seconds_to_due 44520000001 (n_due_date n) / 60\<rfloor>)
                       @ '' minutes''"
    and t'': "\<And>n. n \<in> set ls \<Longrightarrow> 3600 \<le> seconds_to_due 44520000001 (n_due_date n) \<Longrightarrow>
               n_urgency n = ''today'' \<and> n_message n = ''Due today at '' @ clock_text (n_due_date n)"
    unfolding now' by blast
  from example_due_dates(3) l obtain e f where
    ls: "ls = [e, f]" "t_title (row_task (n_task e)) = ''Report''" "n_due_date e = 45000000000"
      "t_title (row_task (n_task f)) = ''Call''" "n_due_date f = 129600000000"
    by auto
  have "\<lfloor>479999999 / (60000000 :: rat)\<rfloor> = 7"
    by (simp add: floor_divide_of_int_eq[of 479999999 60000000, simplified])
  then have "n_urgency e = ''urgent'' \<and> n_message e = ''Due in 7 minutes''"
    using u''[of e] by (simp add: ls seconds_to_due_def example_texts)
  moreover have "n_urgency f = ''today'' \<and> n_message f = ''Due today at 12:00''"
    using t''[of f] by (simp add: ls seconds_to_due_def example_texts)
  ultimately have third: "map_sum (\<lambda>e. e) (map (\<lambda>n. (t_title (row_task (n_task n)), n_urgency n, n_message n)))
       (get_due_notifications (example_world\<lparr> datetime_now := 44520000001 \<rparr>) alice)
     = Inr [(''Report'', ''urgent'', ''Due in 7 minutes''), (''Call'', ''today'', ''Due today at 12:00'')]"
    by (simp add: l ls)
  from notification_urgency_message[of example_world alice] obtain ns where
    n: "get_due_notifications example_world alice = Inr ns"
    and u: "\<And>n. n \<in> set ns \<Longrightarrow> seconds_to_due 43200000000 (n_due_date n) < 3600 \<Longrightarrow>
               n_urgency n = ''urgent''
               \<and> n_message n
                   = ''Due in '' @ minutes_text (nat \<lfloor>seconds_to_due 43200000000 (n_due_date n) / 60\<rfloor>)
                       @ '' minutes''"
    and t: "\<And>n. n \<in> set ns \<Longrightarrow> 3600 \<le> seconds_to_due 43200000000 (n_due_date n) \<Longrightarrow>
               n_urgency n = ''today'' \<and> n_message n = ''Due today at '' @ clock_text (n_due_date n)"
    unfolding now by blast
  from notification_urgency_message[of example_world bob] obtain ms where
    m: "get_due_notifications example_world bob = Inr ms"
    and t': "\<And>n. n \<in> set ms \<Longrightarrow> 3600 \<le> seconds_to_due 43200000000 (n_due_date n) \<Longrightarrow>
               n_urgency n = ''today'' \<and> n_message n = ''Due today at '' @ clock_text (n_due_date n)"
    unfolding now by blast
  from example_due_dates(1) n obtain a b where
    ns: "ns = [a, b]" "t_title (row_task (n_task a)) = ''Report''" "n_due_date a = 45000000000"
      "t_title (row_task (n_task b)) = ''Call''" "n_due_date b = 129600000000"
    by auto
  from example_due_dates(2) m obtain c where
    ms: "ms = [c]" "t_title (row_task (n_task c)) = ''Groceries''" "n_due_date c = 61200000000"
    by auto
  have "n_urgency a = ''urgent'' \<and> n_message a = ''Due in 30 minutes''"
    using u[of a] by (simp add: ns seconds_to_due_def example_texts)
  moreover have "n_urgency b = ''today'' \<and> n_message b = ''Due today at 12:00''"
    using t[of b] by (simp add: ns seconds_to_due_def example_texts)
  moreover have "n_urgency c = ''today'' \<and> n_message c = ''Due today at 17:00''"
    using t'[of c] by (simp add: ms seconds_to_due_def example_texts)
  ultimately show ?thesis
    using third by (simp add: n m ns ms)
qed

text \<open>
  C5, as amended. A pending task due exactly \<open>86400\<close> seconds after the current time has a
  notification, of urgency \<open>today\<close>: the test of the loop is \<^verbatim>\<open><= 86400\<close>. A task due any later
  has none.
\<close>

theorem due_in_exactly_24h_included:
  "\<exists>pending ns.
     get_user_tasks w user_id (Some ''pending'') None = Inr pending
     \<and> get_due_notifications w user_id = Inr ns
     \<and> (\<forall>r \<in> set pending.
          (t_due_date (row_task r) = Some (datetime_now w + 86400000000) \<longrightarrow>
             (\<exists>n \<in> set ns. n_task n = r \<and> n_urgency n = ''today''))
          \<and> (\<forall>due. t_due_date (row_task r) = Some due \<and> datetime_now w + 86400000000 < due \<longrightarrow>
                r \<notin> n_task ` set ns))"
proof -
  let ?now = "datetime_now w"
  let ?pending = "listed w user_id (Some ''pending'')"
  let ?ns = "sort_key n_due_date (List.map_filter (notification_for ?now) ?pending)"
  have "\<forall>r \<in> set ?pending.
          (t_due_date (row_task r) = Some (?now + 86400000000) \<longrightarrow>
             (\<exists>n \<in> set ?ns. n_task n = r \<and> n_urgency n = ''today''))
          \<and> (\<forall>due. t_due_date (row_task r) = Some due \<and> ?now + 86400000000 < due \<longrightarrow>
                r \<notin> n_task ` set ?ns)"
  proof (intro ballI conjI impI allI)
    fix r
    assume r: "r \<in> set ?pending" and d: "t_due_date (row_task r) = Some (?now + 86400000000)"
    define n where "n = \<lparr> n_task = r, n_urgency = ''today'',
                          n_message = ''Due today at '' @ strftime_HM (?now + 86400000000),
                          n_due_date = ?now + 86400000000 \<rparr>"
    have "notification_for ?now r = Some n"
      using d by (simp add: notification_for_def n_def)
    with r have "n \<in> set ?ns"
      unfolding in_notifications by blast
    then show "\<exists>n \<in> set ?ns. n_task n = r \<and> n_urgency n = ''today''"
      by (rule bexI[rotated]) (simp add: n_def)
  next
    fix r :: task_row and due
    assume d: "t_due_date (row_task r) = Some due \<and> ?now + 86400000000 < due"
    show "r \<notin> n_task ` set ?ns"
    proof
      assume "r \<in> n_task ` set ?ns"
      then obtain n where "n \<in> set ?ns" "n_task n = r"
        by blast
      then obtain n r' where "notification_for ?now r' = Some n" "n_task n = r"
        unfolding in_notifications by blast
      then have "notification_for ?now r = Some n"
        using notification_for_fields(1) by metis
      then show False
        using d by (simp add: notification_for_def)
    qed
  qed
  then show ?thesis
    using get_user_tasks_listed[of w user_id "Some ''pending''"] get_due_notifications_eq[of w user_id]
    by blast
qed

theorem due_in_exactly_24h_included_witness:
  "\<exists>pending ns.
     get_user_tasks example_world alice (Some ''pending'') None = Inr pending
     \<and> get_due_notifications example_world alice = Inr ns
     \<and> make_row (call, None) \<in> set pending
     \<and> t_due_date (row_task (make_row (call, None))) = Some (datetime_now example_world + 86400000000)
     \<and> (\<exists>n \<in> set ns. n_task n = make_row (call, None) \<and> n_urgency n = ''today'')"
proof -
  from due_in_exactly_24h_included[of example_world alice] obtain pending ns where
    p: "get_user_tasks example_world alice (Some ''pending'') None = Inr pending"
    and n: "get_due_notifications example_world alice = Inr ns"
    and i: "\<And>r. r \<in> set pending \<Longrightarrow>
              t_due_date (row_task r) = Some (datetime_now example_world + 86400000000) \<Longrightarrow>
              \<exists>n \<in> set ns. n_task n = r \<and> n_urgency n = ''today''"
    by blast
  from p have m: "make_row (call, None) \<in> set pending"
    by (auto simp: example_pending)
  have d: "t_due_date (row_task (make_row (call, None))) = Some (datetime_now example_world + 86400000000)"
    by (simp add: make_row_def call_def example_world_def)
  from i[OF m d] p n m d show ?thesis
    by blast
qed

text \<open>
  The claim as the specification words it, that such a task is left out, fails on the store
  of the examples: the task \<open>call\<close> is due \<open>86400\<close> seconds after noon and is notified.
\<close>

theorem due_in_exactly_24h_excluded_counterexample:
  "t_due_date call = Some (datetime_now example_world + 86400 * 1000000)
   \<and> t_completed call = False
   \<and> map_sum id (map (row_task \<circ> n_task)) (get_due_notifications example_world alice)
       = Inr [report, call]"
  by code_simp

section \<open>What the handlers do to the store\<close>

lemma insert_task_tasks:
  assumes "insert_task d ts uid title descr cat prio due = (res, d')"
  shows "categories d' = categories d"
    and "tasks_id_seq d \<le> tasks_id_seq d'"
    and "tasks d' = tasks d
         \<or> (\<exists>title' cat' prio'. res = None
               \<and> tasks d' = tasks d @
                   [\<lparr> t_id = tasks_id_seq d, t_user_id = uid, t_title = title', t_description = descr,
                    t_category_id = cat', t_priority = prio', t_due_date = due, t_completed = False,
                    t_completed_at = None, t_created_at = ts, t_updated_at = ts \<rparr>]
               \<and> tasks_id_seq d' = tasks_id_seq d + 1
               \<and> column_values title cat prio = Inr (title', cat', prio')
               \<and> \<not> foreign_key_violated d cat')"
  using assms by (auto simp: insert_task_def Let_def split: sum.splits prod.splits if_splits)

lemma insert_task_row:
  assumes "insert_task d ts uid title descr cat prio due = (res, d')"
  shows "tasks d' = tasks d
         \<or> (\<exists>t. tasks d' = tasks d @ [t] \<and> t_id t = tasks_id_seq d \<and> t_user_id t = uid
                 \<and> \<not> t_completed t \<and> t_completed_at t = None)"
  using insert_task_tasks(3)[OF assms] by auto

lemma update_task_tasks:
  assumes "update_task d ts i uid title descr cat prio due = Inr d'"
  shows "\<exists>f. tasks d' = map f (tasks d) \<and> categories d' = categories d \<and> tasks_id_seq d' = tasks_id_seq d
          \<and> (\<forall>t. t_id (f t) = t_id t \<and> t_user_id (f t) = t_user_id t \<and> t_completed (f t) = t_completed t
                  \<and> t_completed_at (f t) = t_completed_at t \<and> t_created_at (f t) = t_created_at t
                  \<and> (t_user_id t \<noteq> uid \<or> t_id t \<noteq> i \<longrightarrow> f t = t))"
proof -
  from assms obtain title' cat' prio' where v: "column_values title cat prio = Inr (title', cat', prio')"
    by (auto simp: update_task_def split: sum.splits)
  show ?thesis
  proof (cases "\<exists>t \<in> set (tasks d). t_id t = i \<and> t_user_id t = uid")
    case False
    with assms v have "d' = d"
      by (simp add: update_task_def)
    then show ?thesis
      by (intro exI[of _ "\<lambda>t. t"]) simp
  next
    case True
    with assms v have
      "d' = d\<lparr> tasks := map (\<lambda>t. if t_id t = i \<and> t_user_id t = uid
                                    then t\<lparr> t_title := title', t_description := descr,
                                            t_category_id := cat', t_priority := prio',
                                            t_due_date := due, t_updated_at := ts \<rparr>
                                    else t) (tasks d) \<rparr>"
      by (simp add: update_task_def split: if_splits)
    then show ?thesis
      by (intro exI[of _ "\<lambda>t. if t_id t = i \<and> t_user_id t = uid
                                    then t\<lparr> t_title := title', t_description := descr,
                                            t_category_id := cat', t_priority := prio',
                                            t_due_date := due, t_updated_at := ts \<rparr>
                                    else t"]) simp
  qed
qed

lemma add_task_cases:
  "snd (add_task fromisoformat w session method form) = w
   \<or> (\<exists>uid title due res d'. session = Some uid \<and> reachable w
        \<and> insert_task (db w) (current_timestamp w) uid title (f_description form) (form_category form)
             (f_priority form) due = (res, d')
        \<and> snd (add_task fromisoformat w session method form) = w\<lparr> db := d' \<rparr>)"
  by (auto simp: add_task_def login_required_def get_db_connection_def Let_def
      split: option.splits sum.splits if_splits prod.splits)

lemma edit_task_cases:
  "snd (edit_task fromisoformat w session method form task_id) = w
   \<or> (\<exists>uid title due d'. session = Some uid \<and> reachable w
        \<and> update_task (db w) (current_timestamp w) task_id uid title (f_description form) (form_category form)
             (f_priority form) due = Inr d'
        \<and> snd (edit_task fromisoformat w session method form task_id) = w\<lparr> db := d' \<rparr>)"
  by (auto simp: edit_task_def login_required_def get_db_connection_def Let_def
      split: option.splits sum.splits if_splits)

lemma duplicate_task_cases:
  "snd (duplicate_task w session task_id) = w
   \<or> (\<exists>uid t res d'. session = Some uid \<and> reachable w \<and> select_task (db w) task_id uid = Some t
        \<and> insert_task (db w) (current_timestamp w) uid (''Copy of '' @ t_title t) (t_description t)
             (t_category_id t) (t_priority t) (t_due_date t) = (res, d')
        \<and> snd (duplicate_task w session task_id) = w\<lparr> db := d' \<rparr>)"
  by (auto simp: duplicate_task_def login_required_def get_db_connection_def
      split: option.splits sum.splits prod.splits)

lemma toggle_task_cases:
  "snd (toggle_task w session referrer task_id) = w
   \<or> (\<exists>uid t. session = Some uid \<and> reachable w \<and> select_task (db w) task_id uid = Some t
        \<and> snd (toggle_task w session referrer task_id)
            = w\<lparr> db := update_completed (db w) task_id (\<not> t_completed t)
                          (if t_completed t then None else Some (datetime_now w)) \<rparr>)"
  by (auto simp: toggle_task_def login_required_def get_db_connection_def Let_def
      split: option.splits)

lemma delete_task_cases:
  "snd (delete_task w session task_id) = w
   \<or> (\<exists>uid. session = Some uid \<and> reachable w
        \<and> snd (delete_task w session task_id) = w\<lparr> db := delete_from_tasks (db w) task_id uid \<rparr>)"
  by (auto simp: delete_task_def login_required_def get_db_connection_def split: option.splits)



lemma insert_task_keeps:
  assumes "insert_task d ts uid title descr cat prio due = (res, d')"
  shows "take (length (tasks d)) (tasks d') = tasks d"
  using insert_task_row[OF assms] by auto

lemma insert_task_others:
  assumes "insert_task d ts uid title descr cat prio due = (res, d')"
  shows "filter (\<lambda>t. t_user_id t \<noteq> uid) (tasks d') = filter (\<lambda>t. t_user_id t \<noteq> uid) (tasks d)"
  using insert_task_row[OF assms] by auto



lemma delete_from_tasks_invariant:
  assumes "completion_invariant d"
  shows "completion_invariant (delete_from_tasks d i uid)"
  using assms by (simp add: completion_invariant_def delete_from_tasks_def)







lemma toggle_task_own:
  assumes "reachable w" "select_task (db w) task_id user_id = Some t"
  shows "snd (toggle_task w (Some user_id) referrer task_id)
           = w\<lparr> db := update_completed (db w) task_id (\<not> t_completed t)
                         (if t_completed t then None else Some (datetime_now w)) \<rparr>"
  using assms by (simp add: toggle_task_def login_required_def get_db_connection_def Let_def)





lemma example_select_report: "select_task (db example_world) 1 alice = Some report"
  by (simp add: select_task_def fetchone_def example_defs)



lemma fetchone_map: "fetchone (map f xs) = map_option f (fetchone xs)"
  by (cases xs) (simp_all add: fetchone_def)

lemma filter_own_update:
  "filter (\<lambda>t. t_id t = i \<and> t_user_id t = uid)
      (map (\<lambda>t. if t_id t = i then t\<lparr> t_completed := c, t_completed_at := ca \<rparr> else t) ts)
    = map (\<lambda>t. t\<lparr> t_completed := c, t_completed_at := ca \<rparr>)
        (filter (\<lambda>t. t_id t = i \<and> t_user_id t = uid) ts)"
  by (induction ts) simp_all

lemma filter_other_update:
  "filter (\<lambda>t. t_id t \<noteq> i)
      (map (\<lambda>t. if t_id t = i then t\<lparr> t_completed := c, t_completed_at := ca \<rparr> else t) ts)
    = filter (\<lambda>t. t_id t \<noteq> i) ts"
  by (induction ts) simp_all

lemma select_update_completed:
  "select_task (update_completed d i c ca) i uid
     = map_option (\<lambda>t. t\<lparr> t_completed := c, t_completed_at := ca \<rparr>) (select_task d i uid)"
  by (simp add: select_task_def update_completed_def filter_own_update fetchone_map)

lemma toggle_task_select:
  assumes "reachable w" "select_task (db w) task_id user_id = Some t"
  shows "select_task (db (snd (toggle_task w (Some user_id) referrer task_id))) task_id user_id
           = Some (toggled (datetime_now w) t)"
  by (simp add: toggle_task_own[OF assms] select_update_completed assms(2) toggled_def)

lemma toggle_task_reachable:
  "reachable (snd (toggle_task w session referrer task_id)) = reachable w"
  using toggle_task_cases[of w session referrer task_id] by (elim disjE exE conjE) simp_all

lemma toggle_task_others:
  "filter (\<lambda>t. t_id t \<noteq> task_id) (tasks (db (snd (toggle_task w session referrer task_id))))
     = filter (\<lambda>t. t_id t \<noteq> task_id) (tasks (db w))"
  using toggle_task_cases[of w session referrer task_id]
  by (elim disjE exE conjE) (simp_all add: update_completed_def filter_other_update)

lemma add_task_keeps:
  "take (length (tasks (db w))) (tasks (db (snd (add_task fromisoformat w session method form)))) = tasks (db w)"
  using add_task_cases[of fromisoformat w session "method" form]
proof (elim disjE exE conjE)
  assume "snd (add_task fromisoformat w session method form) = w"
  then show ?thesis by simp
next
  fix uid title due res d'
  assume ins: "insert_task (db w) (current_timestamp w) uid title (f_description form) (form_category form)
             (f_priority form) due = (res, d')"
    and w': "snd (add_task fromisoformat w session method form) = w\<lparr> db := d' \<rparr>"
  from insert_task_keeps[OF ins] show ?thesis
    by (simp add: w')
qed

lemma duplicate_task_keeps:
  "take (length (tasks (db w))) (tasks (db (snd (duplicate_task w session task_id)))) = tasks (db w)"
  using duplicate_task_cases[of w session task_id]
proof (elim disjE exE conjE)
  assume "snd (duplicate_task w session task_id) = w"
  then show ?thesis by simp
next
  fix uid and t0 :: task and res d'
  assume ins: "insert_task (db w) (current_timestamp w) uid (''Copy of '' @ t_title t0) (t_description t0)
             (t_category_id t0) (t_priority t0) (t_due_date t0) = (res, d')"
    and w': "snd (duplicate_task w session task_id) = w\<lparr> db := d' \<rparr>"
  from insert_task_keeps[OF ins] show ?thesis
    by (simp add: w')
qed

lemma edit_task_keeps:
  "map completion_of (tasks (db (snd (edit_task fromisoformat w session method form task_id))))
     = map completion_of (tasks (db w))"
  using edit_task_cases[of fromisoformat w session "method" form task_id]
proof (elim disjE exE conjE)
  assume "snd (edit_task fromisoformat w session method form task_id) = w"
  then show ?thesis by simp
next
  fix uid title due d'
  assume upd: "update_task (db w) (current_timestamp w) task_id uid title (f_description form) (form_category form)
             (f_priority form) due = Inr d'"
    and w': "snd (edit_task fromisoformat w session method form task_id) = w\<lparr> db := d' \<rparr>"
  from update_task_tasks[OF upd] obtain f where
    f: "tasks d' = map f (tasks (db w))" "\<And>t. t_id (f t) = t_id t" "\<And>t. t_completed (f t) = t_completed t"
       "\<And>t. t_completed_at (f t) = t_completed_at t"
    by blast
  show ?thesis
    by (simp add: w' f completion_of_def)
qed

lemma delete_task_keeps:
  "set (tasks (db (snd (delete_task w session task_id)))) \<subseteq> set (tasks (db w))"
  using delete_task_cases[of w session task_id]
  by (elim disjE exE conjE) (simp_all add: delete_from_tasks_def)

text \<open>
  C7. A toggle of a task of the session's user makes the transition of its state; a second
  toggle, at a later time, makes the opposite one, so that the task is completed again
  exactly when it was, with the later time as time of completion or none. A toggle leaves
  the other tasks as they are, and no other handler changes the completion state of a task:
  an edit keeps it for every task, a creation and a duplication keep the tasks there were, a
  deletion only removes.
\<close>

theorem toggle_twice:
  assumes "reachable w" "select_task (db w) task_id user_id = Some t"
  shows "select_task (db (snd (toggle_task w (Some user_id) referrer task_id))) task_id user_id
           = Some (toggled (datetime_now w) t)
       \<and> select_task (db (snd (toggle_task ((snd (toggle_task w (Some user_id) referrer task_id))
                                               \<lparr> datetime_now := later \<rparr>)
                                 (Some user_id) referrer' task_id))) task_id user_id
           = Some (toggled later (toggled (datetime_now w) t))
       \<and> t_completed (toggled later (toggled (datetime_now w) t)) = t_completed t
       \<and> t_completed_at (toggled later (toggled (datetime_now w) t))
           = (if t_completed t then Some later else None)
       \<and> filter (\<lambda>t. t_id t \<noteq> task_id) (tasks (db (snd (toggle_task w (Some user_id) referrer task_id))))
           = filter (\<lambda>t. t_id t \<noteq> task_id) (tasks (db w))
       \<and> map completion_of (tasks (db (snd (edit_task fromisoformat w session method form other_id))))
           = map completion_of (tasks (db w))
       \<and> take (length (tasks (db w))) (tasks (db (snd (add_task fromisoformat w session method form))))
           = tasks (db w)
       \<and> take (length (tasks (db w))) (tasks (db (snd (duplicate_task w session other_id)))) = tasks (db w)
       \<and> set (tasks (db (snd (delete_task w session other_id)))) \<subseteq> set (tasks (db w))"
proof (intro conjI)
  let ?w1 = "snd (toggle_task w (Some user_id) referrer task_id)"
  show 1: "select_task (db ?w1) task_id user_id = Some (toggled (datetime_now w) t)"
    using assms by (rule toggle_task_select)
  have "reachable (?w1\<lparr> datetime_now := later \<rparr>)"
    using assms(1) by (simp add: toggle_task_reachable)
  moreover have "select_task (db (?w1\<lparr> datetime_now := later \<rparr>)) task_id user_id
                   = Some (toggled (datetime_now w) t)"
    using 1 by simp
  ultimately have "select_task (db (snd (toggle_task (?w1\<lparr> datetime_now := later \<rparr>) (Some user_id)
                                            referrer' task_id))) task_id user_id
                     = Some (toggled (datetime_now (?w1\<lparr> datetime_now := later \<rparr>)) (toggled (datetime_now w) t))"
    by (rule toggle_task_select)
  then show "select_task (db (snd (toggle_task (?w1\<lparr> datetime_now := later \<rparr>) (Some user_id)
                                       referrer' task_id))) task_id user_id
               = Some (toggled later (toggled (datetime_now w) t))"
    by simp
  show "t_completed (toggled later (toggled (datetime_now w) t)) = t_completed t"
    by (simp add: toggled_def)
  show "t_completed_at (toggled later (toggled (datetime_now w) t)) = (if t_completed t then Some later else None)"
    by (simp add: toggled_def)
  show "filter (\<lambda>t. t_id t \<noteq> task_id) (tasks (db ?w1)) = filter (\<lambda>t. t_id t \<noteq> task_id) (tasks (db w))"
    by (rule toggle_task_others)
  show "map completion_of (tasks (db (snd (edit_task fromisoformat w session method form other_id))))
           = map completion_of (tasks (db w))"
    by (rule edit_task_keeps)
  show "take (length (tasks (db w))) (tasks (db (snd (add_task fromisoformat w session method form))))
           = tasks (db w)"
    by (rule add_task_keeps)
  show "take (length (tasks (db w))) (tasks (db (snd (duplicate_task w session other_id)))) = tasks (db w)"
    by (rule duplicate_task_keeps)
  show "set (tasks (db (snd (delete_task w session other_id)))) \<subseteq> set (tasks (db w))"
    by (rule delete_task_keeps)
qed

theorem toggle_twice_witness:
  "select_task (db example_world) 1 alice = Some report
   \<and> select_task (db (snd (toggle_task example_world (Some alice) None 1))) 1 alice
       = Some (report\<lparr> t_completed := True, t_completed_at := Some noon \<rparr>)
   \<and> select_task (db (snd (toggle_task ((snd (toggle_task example_world (Some alice) None 1))
                                           \<lparr> datetime_now := noon + 60000000 \<rparr>)
                             (Some alice) None 1))) 1 alice
       = Some report"
proof -
  have a: "toggled (datetime_now example_world) report = report\<lparr> t_completed := True, t_completed_at := Some noon \<rparr>"
    by (simp add: toggled_def report_def example_world_def)
  have b: "toggled (noon + 60000000) (report\<lparr> t_completed := True, t_completed_at := Some noon \<rparr>) = report"
    by (simp add: toggled_def report_def)
  show ?thesis
    using toggle_twice[OF example_reachable example_select_report, of None "noon + 60000000" None]
      example_select_report
    by (simp add: a b)
qed
section \<open>Only the owner's tasks are touched\<close>

lemma fetchone_None: "fetchone xs = None \<longleftrightarrow> xs = []"
  by (cases xs) (simp_all add: fetchone_def)

lemma fetchone_filter_Some:
  assumes "fetchone (filter P xs) = Some t"
  shows "t \<in> set xs" and "P t"
proof -
  from assms obtain ys where "filter P xs = t # ys"
    by (cases "filter P xs") (simp_all add: fetchone_def)
  then have "t \<in> set (filter P xs)"
    by simp
  then show "t \<in> set xs" and "P t"
    by simp_all
qed

lemma select_task_Some:
  assumes "select_task d i uid = Some t"
  shows "t \<in> set (tasks d)" "t_id t = i" "t_user_id t = uid"
  using fetchone_filter_Some[OF assms[unfolded select_task_def]] by simp_all

lemma select_task_None:
  "select_task d i uid = None \<longleftrightarrow> (\<forall>t \<in> set (tasks d). \<not> (t_id t = i \<and> t_user_id t = uid))"
  by (simp add: select_task_def fetchone_None filter_empty_conv)

lemma wf_select_unique:
  assumes "wf_db d" "select_task d i uid = Some t" "t' \<in> set (tasks d)" "t_id t' = i"
  shows "t' = t"
proof -
  note t = select_task_Some[OF assms(2)]
  from assms(1) have "inj_on t_id (set (tasks d))"
    by (simp add: wf_db_def distinct_map)
  then show ?thesis
    using t(1,2) assms(3,4) by (simp add: inj_on_def)
qed

lemma others_update_completed:
  assumes "\<forall>t \<in> set ts. t_id t = i \<longrightarrow> t_user_id t = uid"
  shows "filter (\<lambda>t. t_user_id t \<noteq> uid)
           (map (\<lambda>t. if t_id t = i then t\<lparr> t_completed := c, t_completed_at := ca \<rparr> else t) ts)
         = filter (\<lambda>t. t_user_id t \<noteq> uid) ts"
  using assms by (induction ts) simp_all

lemma others_map:
  assumes "\<And>t. t_user_id (f t) = t_user_id t" "\<And>t. t_user_id t \<noteq> uid \<Longrightarrow> f t = t"
  shows "filter (\<lambda>t. t_user_id t \<noteq> uid) (map f ts) = filter (\<lambda>t. t_user_id t \<noteq> uid) ts"
  using assms by (induction ts) simp_all

lemma toggle_task_others_rows:
  assumes "wf_db (db w)"
  shows "filter (\<lambda>t. t_user_id t \<noteq> user_id) (tasks (db (snd (toggle_task w (Some user_id) referrer task_id))))
           = filter (\<lambda>t. t_user_id t \<noteq> user_id) (tasks (db w))"
  using toggle_task_cases[of w "Some user_id" referrer task_id]
proof (elim disjE exE conjE)
  assume "snd (toggle_task w (Some user_id) referrer task_id) = w"
  then show ?thesis by simp
next
  fix uid and t :: task
  assume s: "Some user_id = Some uid" "select_task (db w) task_id uid = Some t"
    and w': "snd (toggle_task w (Some user_id) referrer task_id)
            = w\<lparr> db := update_completed (db w) task_id (\<not> t_completed t)
                          (if t_completed t then None else Some (datetime_now w)) \<rparr>"
  have "\<forall>t' \<in> set (tasks (db w)). t_id t' = task_id \<longrightarrow> t_user_id t' = user_id"
    using wf_select_unique[OF assms s(2)] select_task_Some(3)[OF s(2)] s(1) by auto
  then show ?thesis
    by (simp add: w' update_completed_def others_update_completed)
qed

lemma edit_task_others_rows:
  "filter (\<lambda>t. t_user_id t \<noteq> user_id)
      (tasks (db (snd (edit_task fromisoformat w (Some user_id) method form task_id))))
     = filter (\<lambda>t. t_user_id t \<noteq> user_id) (tasks (db w))"
  using edit_task_cases[of fromisoformat w "Some user_id" "method" form task_id]
proof (elim disjE exE conjE)
  assume "snd (edit_task fromisoformat w (Some user_id) method form task_id) = w"
  then show ?thesis by simp
next
  fix uid title due d'
  assume s: "Some user_id = Some uid"
    and upd: "update_task (db w) (current_timestamp w) task_id uid title (f_description form) (form_category form)
             (f_priority form) due = Inr d'"
    and w': "snd (edit_task fromisoformat w (Some user_id) method form task_id) = w\<lparr> db := d' \<rparr>"
  from update_task_tasks[OF upd] obtain f where
    f: "tasks d' = map f (tasks (db w))" "\<And>t. t_user_id (f t) = t_user_id t"
       "\<And>t. t_user_id t \<noteq> uid \<Longrightarrow> f t = t"
    by blast
  from s have "uid = user_id"
    by simp
  with f show ?thesis
    by (simp add: w' others_map)
qed

lemma delete_task_others_rows:
  "filter (\<lambda>t. t_user_id t \<noteq> user_id) (tasks (db (snd (delete_task w (Some user_id) task_id))))
     = filter (\<lambda>t. t_user_id t \<noteq> user_id) (tasks (db w))"
  using delete_task_cases[of w "Some user_id" task_id]
proof (elim disjE exE conjE)
  assume "snd (delete_task w (Some user_id) task_id) = w"
  then show ?thesis by simp
next
  fix uid
  assume "Some user_id = Some uid"
    and "snd (delete_task w (Some user_id) task_id) = w\<lparr> db := delete_from_tasks (db w) task_id uid \<rparr>"
  then show ?thesis
    by (auto simp: delete_from_tasks_def intro: filter_cong)
qed

lemma duplicate_task_others_rows:
  "filter (\<lambda>t. t_user_id t \<noteq> user_id) (tasks (db (snd (duplicate_task w (Some user_id) task_id))))
     = filter (\<lambda>t. t_user_id t \<noteq> user_id) (tasks (db w))"
  using duplicate_task_cases[of w "Some user_id" task_id]
proof (elim disjE exE conjE)
  assume "snd (duplicate_task w (Some user_id) task_id) = w"
  then show ?thesis by simp
next
  fix uid and t0 :: task and res d'
  assume s: "Some user_id = Some uid"
    and ins: "insert_task (db w) (current_timestamp w) uid (''Copy of '' @ t_title t0) (t_description t0)
             (t_category_id t0) (t_priority t0) (t_due_date t0) = (res, d')"
    and w': "snd (duplicate_task w (Some user_id) task_id) = w\<lparr> db := d' \<rparr>"
  from s have "uid = user_id"
    by simp
  with insert_task_others[OF ins] show ?thesis
    by (simp add: w')
qed

lemma toggle_task_not_found:
  assumes "select_task (db w) task_id user_id = None"
  shows "toggle_task w (Some user_id) referrer task_id
           = (if reachable w
              then (Inr \<lparr> flashed = [],
                          reply = Redirect (case referrer of
                                              None \<Rightarrow> ''/dashboard''
                                            | Some r \<Rightarrow> if r = [] then ''/dashboard'' else r) \<rparr>, w)
              else (Inl AttributeError, w))"
  using assms by (simp add: toggle_task_def login_required_def get_db_connection_def)

lemma edit_task_not_found:
  assumes "select_task (db w) task_id user_id = None"
  shows "edit_task fromisoformat w (Some user_id) method form task_id
           = (if reachable w
              then (Inr \<lparr> flashed = [(''Task not found.'', ''error'')], reply = Redirect ''/dashboard'' \<rparr>, w)
              else (Inl AttributeError, w))"
  using assms by (simp add: edit_task_def login_required_def get_db_connection_def)

lemma delete_task_not_found:
  assumes "select_task (db w) task_id user_id = None"
  shows "delete_task w (Some user_id) task_id
           = (if reachable w
              then (Inr \<lparr> flashed = [(''Task deleted.'', ''success'')], reply = Redirect ''/dashboard'' \<rparr>, w)
              else (Inl AttributeError, w))"
proof -
  from assms have "filter (\<lambda>t. \<not> (t_id t = task_id \<and> t_user_id t = user_id)) (tasks (db w)) = tasks (db w)"
    by (simp add: select_task_None filter_id_conv)
  then show ?thesis
    by (simp add: delete_task_def login_required_def get_db_connection_def delete_from_tasks_def)
qed

lemma duplicate_task_not_found:
  assumes "select_task (db w) task_id user_id = None"
  shows "duplicate_task w (Some user_id) task_id
           = (if reachable w
              then (Inr \<lparr> flashed = [(''Task duplicated.'', ''success'')], reply = Redirect ''/dashboard'' \<rparr>, w)
              else (Inl AttributeError, w))"
  using assms by (simp add: duplicate_task_def login_required_def get_db_connection_def)

lemma select_task_foreign:
  assumes "wf_db d" "\<exists>t \<in> set (tasks d). t_id t = theirs \<and> t_user_id t \<noteq> user_id"
  shows "select_task d theirs user_id = None"
proof (rule ccontr)
  assume "select_task d theirs user_id \<noteq> None"
  then obtain t where t: "select_task d theirs user_id = Some t"
    by blast
  from assms(2) obtain t' where t': "t' \<in> set (tasks d)" "t_id t' = theirs" "t_user_id t' \<noteq> user_id"
    by blast
  from wf_select_unique[OF assms(1) t t'(1,2)] select_task_Some(3)[OF t] t'(3)
  show False
    by simp
qed

lemma select_task_missing:
  assumes "missing \<notin> t_id ` set (tasks d)"
  shows "select_task d missing user_id = None"
  using assms by (auto simp: select_task_None)

text \<open>
  C8. Toggling, editing, deleting and duplicating leave the tasks of every other user as
  they are. When the task asked for exists and belongs to another user, each of the four
  does exactly what it does for an identity that no task has, reply and store alike, and
  the store and all around it stay as they were.
\<close>

theorem mutations_respect_ownership:
  assumes "wf_db (db w)"
    and "\<exists>t \<in> set (tasks (db w)). t_id t = theirs \<and> t_user_id t \<noteq> user_id"
    and "missing \<notin> t_id ` set (tasks (db w))"
  shows "filter (\<lambda>t. t_user_id t \<noteq> user_id) (tasks (db (snd (toggle_task w (Some user_id) referrer task_id))))
           = filter (\<lambda>t. t_user_id t \<noteq> user_id) (tasks (db w))
       \<and> filter (\<lambda>t. t_user_id t \<noteq> user_id)
            (tasks (db (snd (edit_task fromisoformat w (Some user_id) method form task_id))))
           = filter (\<lambda>t. t_user_id t \<noteq> user_id) (tasks (db w))
       \<and> filter (\<lambda>t. t_user_id t \<noteq> user_id) (tasks (db (snd (delete_task w (Some user_id) task_id))))
           = filter (\<lambda>t. t_user_id t \<noteq> user_id) (tasks (db w))
       \<and> filter (\<lambda>t. t_user_id t \<noteq> user_id) (tasks (db (snd (duplicate_task w (Some user_id) task_id))))
           = filter (\<lambda>t. t_user_id t \<noteq> user_id) (tasks (db w))
       \<and> toggle_task w (Some user_id) referrer theirs = toggle_task w (Some user_id) referrer missing
       \<and> snd (toggle_task w (Some user_id) referrer theirs) = w
       \<and> edit_task fromisoformat w (Some user_id) method form theirs
           = edit_task fromisoformat w (Some user_id) method form missing
       \<and> snd (edit_task fromisoformat w (Some user_id) method form theirs) = w
       \<and> delete_task w (Some user_id) theirs = delete_task w (Some user_id) missing
       \<and> snd (delete_task w (Some user_id) theirs) = w
       \<and> duplicate_task w (Some user_id) theirs = duplicate_task w (Some user_id) missing
       \<and> snd (duplicate_task w (Some user_id) theirs) = w"
proof -
  have t: "select_task (db w) theirs user_id = None"
    using assms(1,2) by (rule select_task_foreign)
  have m: "select_task (db w) missing user_id = None"
    using assms(3) by (rule select_task_missing)
  show ?thesis
  proof (intro conjI)
    show "filter (\<lambda>t. t_user_id t \<noteq> user_id) (tasks (db (snd (toggle_task w (Some user_id) referrer task_id))))
           = filter (\<lambda>t. t_user_id t \<noteq> user_id) (tasks (db w))"
      using assms(1) by (rule toggle_task_others_rows)
    show "filter (\<lambda>t. t_user_id t \<noteq> user_id)
            (tasks (db (snd (edit_task fromisoformat w (Some user_id) method form task_id))))
           = filter (\<lambda>t. t_user_id t \<noteq> user_id) (tasks (db w))"
      by (rule edit_task_others_rows)
    show "filter (\<lambda>t. t_user_id t \<noteq> user_id) (tasks (db (snd (delete_task w (Some user_id) task_id))))
           = filter (\<lambda>t. t_user_id t \<noteq> user_id) (tasks (db w))"
      by (rule delete_task_others_rows)
    show "filter (\<lambda>t. t_user_id t \<noteq> user_id) (tasks (db (snd (duplicate_task w (Some user_id) task_id))))
           = filter (\<lambda>t. t_user_id t \<noteq> user_id) (tasks (db w))"
      by (rule duplicate_task_others_rows)
    show "toggle_task w (Some user_id) referrer theirs = toggle_task w (Some user_id) referrer missing"
      by (simp only: toggle_task_not_found[OF t] toggle_task_not_found[OF m])
    show "snd (toggle_task w (Some user_id) referrer theirs) = w"
      by (simp add: toggle_task_not_found[OF t])
    show "edit_task fromisoformat w (Some user_id) method form theirs
           = edit_task fromisoformat w (Some user_id) method form missing"
      by (simp only: edit_task_not_found[OF t] edit_task_not_found[OF m])
    show "snd (edit_task fromisoformat w (Some user_id) method form theirs) = w"
      by (simp add: edit_task_not_found[OF t])
    show "delete_task w (Some user_id) theirs = delete_task w (Some user_id) missing"
      by (simp only: delete_task_not_found[OF t] delete_task_not_found[OF m])
    show "snd (delete_task w (Some user_id) theirs) = w"
      by (simp add: delete_task_not_found[OF t])
    show "duplicate_task w (Some user_id) theirs = duplicate_task w (Some user_id) missing"
      by (simp only: duplicate_task_not_found[OF t] duplicate_task_not_found[OF m])
    show "snd (duplicate_task w (Some user_id) theirs) = w"
      by (simp add: duplicate_task_not_found[OF t])
  qed
qed

lemma example_theirs: "\<exists>t \<in> set (tasks (db example_world)). t_id t = 3 \<and> t_user_id t \<noteq> alice"
  by (simp add: example_defs)

lemma example_missing: "99 \<notin> t_id ` set (tasks (db example_world))"
  by (simp add: example_defs)

theorem mutations_respect_ownership_witness:
  "toggle_task example_world (Some alice) None 3 = toggle_task example_world (Some alice) None 99
   \<and> snd (toggle_task example_world (Some alice) None 3) = example_world
   \<and> snd (delete_task example_world (Some alice) 3) = example_world
   \<and> snd (duplicate_task example_world (Some alice) 3) = example_world
   \<and> filter (\<lambda>t. t_user_id t \<noteq> alice) (tasks (db (snd (toggle_task example_world (Some alice) None 1))))
       = [groceries]"
proof -
  have h: "filter (\<lambda>t. t_user_id t \<noteq> alice) (tasks (db example_world)) = [groceries]"
    by (simp add: example_defs)
  from mutations_respect_ownership[OF wf_example example_theirs example_missing,
      of None 1 "\<lambda>s. None" GET milk_form]
  show ?thesis
    unfolding h by blast
qed

section \<open>Duplicating a task\<close>

lemma varchar_fits: "length s \<le> n \<Longrightarrow> varchar n s = Inr s"
  by (simp add: varchar_def)

lemma column_values_wf:
  assumes "wf_db d" "t \<in> set (tasks d)" "length title \<le> 255"
    and "case t_category_id t of None \<Rightarrow> True | Some k \<Rightarrow> uuid_in k = Some k"
  shows "column_values title (t_category_id t) (t_priority t) = Inr (title, t_category_id t, t_priority t)"
    and "\<not> foreign_key_violated d (t_category_id t)"
proof -
  from assms(1,2) have p: "case t_priority t of None \<Rightarrow> True | Some p \<Rightarrow> length p \<le> 20"
    and c: "case t_category_id t of None \<Rightarrow> True | Some k \<Rightarrow> k \<in> c_id ` set (categories d)"
    by (simp_all add: wf_db_def)
  have "(case t_priority t of None \<Rightarrow> Inr None | Some p \<Rightarrow> map_sum (\<lambda>e. e) Some (varchar 20 p))
          = Inr (t_priority t)"
    using p by (cases "t_priority t") (simp_all add: varchar_fits)
  moreover have "(case t_category_id t of
                    None \<Rightarrow> Inr None
                  | Some v \<Rightarrow> (case uuid_in v of None \<Rightarrow> Inl InvalidTextRepresentation | Some k \<Rightarrow> Inr (Some k)))
          = Inr (t_category_id t)"
    using assms(4) by (cases "t_category_id t") simp_all
  ultimately show "column_values title (t_category_id t) (t_priority t)
                     = Inr (title, t_category_id t, t_priority t)"
    using assms(3) by (simp add: column_values_def varchar_fits)
  show "\<not> foreign_key_violated d (t_category_id t)"
    using c by (cases "t_category_id t") (simp_all add: foreign_key_violated_def)
qed

text \<open>
  A task of the session's user whose title has at most 247 characters, and whose category,
  if it has one, has a uuid that the store reads back from its text, as it does every uuid
  it has read from a text (\<open>uuid_in_printed\<close>), is duplicated as the specification says: the reply is the redirect, and one task is added, with the next
  identity of the sequence, which no task has, the user as owner, the title after
  \<^verbatim>\<open>Copy of \<close>, the description, category, priority and due date of the original, not
  completed and with no time of completion; the tasks there were are kept.
\<close>

lemma duplicate_task_copies:
  assumes "reachable w" "wf_db (db w)" "select_task (db w) task_id user_id = Some t"
    and "length (t_title t) \<le> 247"
    and "case t_category_id t of None \<Rightarrow> True | Some k \<Rightarrow> uuid_in k = Some k"
  shows "duplicate_task w (Some user_id) task_id
           = (Inr \<lparr> flashed = [(''Task duplicated.'', ''success'')], reply = Redirect ''/dashboard'' \<rparr>,
              w\<lparr> db := (db w)\<lparr> tasks := tasks (db w) @
                         [\<lparr> t_id = tasks_id_seq (db w), t_user_id = user_id,
                            t_title = ''Copy of '' @ t_title t, t_description = t_description t,
                            t_category_id = t_category_id t, t_priority = t_priority t,
                            t_due_date = t_due_date t, t_completed = False, t_completed_at = None,
                            t_created_at = current_timestamp w, t_updated_at = current_timestamp w \<rparr>],
                       tasks_id_seq := tasks_id_seq (db w) + 1 \<rparr> \<rparr>)"
    and "tasks_id_seq (db w) \<notin> t_id ` set (tasks (db w))"
proof -
  have "length (''Copy of '' @ t_title t) \<le> 255"
    using assms(4) by simp
  note v = column_values_wf[OF assms(2) select_task_Some(1)[OF assms(3)] this assms(5)]
  show "duplicate_task w (Some user_id) task_id
           = (Inr \<lparr> flashed = [(''Task duplicated.'', ''success'')], reply = Redirect ''/dashboard'' \<rparr>,
              w\<lparr> db := (db w)\<lparr> tasks := tasks (db w) @
                         [\<lparr> t_id = tasks_id_seq (db w), t_user_id = user_id,
                            t_title = ''Copy of '' @ t_title t, t_description = t_description t,
                            t_category_id = t_category_id t, t_priority = t_priority t,
                            t_due_date = t_due_date t, t_completed = False, t_completed_at = None,
                            t_created_at = current_timestamp w, t_updated_at = current_timestamp w \<rparr>],
                       tasks_id_seq := tasks_id_seq (db w) + 1 \<rparr> \<rparr>)"
    using assms(1,3) v
    by (simp add: duplicate_task_def login_required_def get_db_connection_def insert_task_def Let_def)
  show "tasks_id_seq (db w) \<notin> t_id ` set (tasks (db w))"
    using assms(2) by (auto simp: wf_db_def)
qed

text \<open>The task \<open>report\<close> of the examples is duplicated so.\<close>

lemma duplicate_task_example:
  "map (\<lambda>t. (t_id t, t_title t, t_category_id t, t_completed t))
       (tasks (db (snd (duplicate_task example_world (Some alice) 1))))
     = [(1, ''Report'', Some ''c0000000-0000-4000-8000-000000000001'', False), (2, ''Rent'', None, True),
        (3, ''Groceries'', None, False), (4, ''Call'', None, False),
        (5, ''Copy of Report'', Some ''c0000000-0000-4000-8000-000000000001'', False)]"
  by code_simp

lemma long_form_title: "form_title long_form = replicate 248 (CHR ''a'')"
  by code_simp

text \<open>
  C10. Duplicating a task of the session's user is to add a copy of it whose title is the
  original's after \<^verbatim>\<open>Copy of \<close>. With a longer title it does not: \<open>alice\<close> creates a task whose
  title has 248 characters, which the store accepts; the title of the copy would have 256,
  more than \<^verbatim>\<open>VARCHAR(255)\<close> holds, so the insert raises, the handler ends in a server error
  and no task is added.
\<close>

theorem duplicate_task_long_title:
  "fst (add_task (\<lambda>s. None) example_world (Some alice) POST long_form)
     = Inr \<lparr> flashed = [(''Task added successfully!'', ''success'')], reply = Redirect ''/dashboard'' \<rparr>
   \<and> map_option t_title (select_task (db (snd (add_task (\<lambda>s. None) example_world (Some alice) POST long_form))) 5 alice)
     = Some (replicate 248 (CHR ''a''))
   \<and> duplicate_task (snd (add_task (\<lambda>s. None) example_world (Some alice) POST long_form)) (Some alice) 5
     = (Inl StringDataRightTruncation, snd (add_task (\<lambda>s. None) example_world (Some alice) POST long_form))"
  by code_simp

section \<open>The handlers keep what the schema declares\<close>

text \<open>
  A store without tasks keeps the declarations of the schema and the invariant of the
  completion fields, and every handler leaves a store that keeps the declarations in a state
  that keeps them: the theorems that assume them speak of every store the program can be in.
\<close>

lemma varchar_length:
  assumes "varchar n s = Inr s'"
  shows "length s' \<le> n"
proof (cases "length s \<le> n")
  case True
  with assms show ?thesis by (simp add: varchar_def)
next
  case False
  with assms have "s' = take n s"
    by (simp add: varchar_def split: if_splits)
  then show ?thesis by simp
qed

lemma priority_length:
  assumes "(case priority of None \<Rightarrow> Inr None | Some p \<Rightarrow> map_sum (\<lambda>e. e) Some (varchar 20 p)) = Inr priority'"
  shows "case priority' of None \<Rightarrow> True | Some p \<Rightarrow> length p \<le> 20"
proof (cases priority)
  case None
  with assms show ?thesis by auto
next
  case (Some p)
  show ?thesis
  proof (cases "varchar 20 p")
    case (Inl e)
    with Some assms show ?thesis by simp
  next
    case (Inr p')
    with Some assms have "priority' = Some p'" by auto
    with Inr show ?thesis by (simp add: varchar_length)
  qed
qed

lemma column_values_Inr:
  assumes "column_values title category_id priority = Inr (title', category_id', priority')"
  shows "length title' \<le> 255"
    and "case priority' of None \<Rightarrow> True | Some p \<Rightarrow> length p \<le> 20"
proof -
  let ?p = "case priority of None \<Rightarrow> Inr None | Some p \<Rightarrow> map_sum (\<lambda>e. e) Some (varchar 20 p)"
  from assms have a: "varchar 255 title = Inr title'" and b: "?p = Inr priority'"
    unfolding column_values_def by (auto split: sum.splits option.splits)
  from a show "length title' \<le> 255"
    by (rule varchar_length)
  from b show "case priority' of None \<Rightarrow> True | Some p \<Rightarrow> length p \<le> 20"
    by (rule priority_length)
qed

lemma foreign_key_kept:
  assumes "\<not> foreign_key_violated d category_id"
  shows "case category_id of None \<Rightarrow> True | Some k \<Rightarrow> k \<in> c_id ` set (categories d)"
  using assms by (cases category_id) (simp_all add: foreign_key_violated_def)

lemma wf_db_rows:
  "wf_db d \<longleftrightarrow>
     distinct (map c_id (categories d)) \<and> distinct (map t_id (tasks d))
     \<and> (\<forall>t \<in> set (tasks d). t_id t < tasks_id_seq d) \<and> (\<forall>t \<in> set (tasks d). row_ok (categories d) t)"
  unfolding wf_db_def row_ok_def by blast

lemma insert_task_wf:
  assumes "wf_db d" "insert_task d ts uid title descr cat prio due = (res, d')"
  shows "wf_db d'"
proof -
  note wf = assms(1)[unfolded wf_db_rows]
  note c = insert_task_tasks(1)[OF assms(2)] and s = insert_task_tasks(2)[OF assms(2)]
  from insert_task_tasks(3)[OF assms(2)] show ?thesis
  proof (elim disjE exE conjE)
    assume t: "tasks d' = tasks d"
    have "\<forall>t \<in> set (tasks d'). t_id t < tasks_id_seq d'"
      using wf s by (auto simp: t)
    with wf show ?thesis
      unfolding wf_db_rows by (simp add: t c)
  next
    fix title' cat' prio'
    assume t: "tasks d' = tasks d @
            [\<lparr> t_id = tasks_id_seq d, t_user_id = uid, t_title = title', t_description = descr,
               t_category_id = cat', t_priority = prio', t_due_date = due, t_completed = False,
               t_completed_at = None, t_created_at = ts, t_updated_at = ts \<rparr>]"
      and s': "tasks_id_seq d' = tasks_id_seq d + 1"
      and k: "column_values title cat prio = Inr (title', cat', prio')"
      and fk: "\<not> foreign_key_violated d cat'"
    note ok = column_values_Inr[OF k] foreign_key_kept[OF fk]
    from wf have fresh: "tasks_id_seq d \<notin> t_id ` set (tasks d)"
      by fastforce
    have 1: "distinct (map c_id (categories d'))"
      using wf by (simp add: c)
    have 2: "distinct (map t_id (tasks d'))"
      using wf fresh by (simp add: t)
    have 3: "\<forall>t \<in> set (tasks d'). t_id t < tasks_id_seq d'"
      using wf by (simp add: t s') fastforce
    have "row_ok (categories d) \<lparr> t_id = tasks_id_seq d, t_user_id = uid, t_title = title', t_description = descr,
               t_category_id = cat', t_priority = prio', t_due_date = due, t_completed = False,
               t_completed_at = None, t_created_at = ts, t_updated_at = ts \<rparr>"
      using ok by (simp add: row_ok_def)
    then have 4: "\<forall>t \<in> set (tasks d'). row_ok (categories d') t"
      using wf by (simp add: t c)
    from 1 2 3 4 show ?thesis
      unfolding wf_db_rows by blast
  qed
qed

lemma update_task_wf:
  assumes "wf_db d" "update_task d ts i uid title descr cat prio due = Inr d'"
  shows "wf_db d'"
proof -
  from assms(2) obtain title' cat' prio' where k: "column_values title cat prio = Inr (title', cat', prio')"
    by (auto simp: update_task_def split: sum.splits)
  show ?thesis
  proof (cases "\<exists>t \<in> set (tasks d). t_id t = i \<and> t_user_id t = uid")
    case False
    with assms k show ?thesis
      by (simp add: update_task_def)
  next
    case True
    with assms(2) k have fk: "\<not> foreign_key_violated d cat'"
      by (auto simp: update_task_def split: if_splits)
    define f :: "task \<Rightarrow> task" where "f = (\<lambda>t. if t_id t = i \<and> t_user_id t = uid
                                    then t\<lparr> t_title := title', t_description := descr,
                                            t_category_id := cat', t_priority := prio',
                                            t_due_date := due, t_updated_at := ts \<rparr>
                                    else t)"
    have d': "d' = d\<lparr> tasks := map f (tasks d) \<rparr>"
      using assms(2) True k fk unfolding update_task_def f_def by simp
    note ok = column_values_Inr[OF k] foreign_key_kept[OF fk]
    note wf = assms(1)[unfolded wf_db_rows]
    have id: "t_id (f t) = t_id t" for t
      by (simp add: f_def)
    have "row_ok (categories d) (f t)" if "row_ok (categories d) t" for t
      using that ok by (simp add: f_def row_ok_def)
    then have 4: "\<forall>t \<in> set (tasks d'). row_ok (categories d') t"
      using wf by (simp add: d')
    have 2: "distinct (map t_id (tasks d'))"
      using wf by (simp add: d' comp_def id)
    have 3: "\<forall>t \<in> set (tasks d'). t_id t < tasks_id_seq d'"
      using wf by (simp add: d' id)
    have 1: "distinct (map c_id (categories d'))"
      using wf by (simp add: d')
    from 1 2 3 4 show ?thesis
      unfolding wf_db_rows by blast
  qed
qed

lemma update_completed_wf:
  assumes "wf_db d"
  shows "wf_db (update_completed d i c ca)"
proof -
  define f :: "task \<Rightarrow> task" where "f = (\<lambda>t. if t_id t = i then t\<lparr> t_completed := c, t_completed_at := ca \<rparr> else t)"
  have d': "update_completed d i c ca = d\<lparr> tasks := map f (tasks d) \<rparr>"
    by (simp add: update_completed_def f_def)
  note wf = assms[unfolded wf_db_rows]
  have id: "t_id (f t) = t_id t" for t
    by (simp add: f_def)
  have "row_ok (categories d) (f t)" if "row_ok (categories d) t" for t
    using that by (simp add: f_def row_ok_def)
  then have "\<forall>t \<in> set (map f (tasks d)). row_ok (categories d) t"
    using wf by simp
  moreover have "distinct (map t_id (map f (tasks d)))"
    using wf by (simp add: comp_def id)
  moreover have "\<forall>t \<in> set (map f (tasks d)). t_id t < tasks_id_seq d"
    using wf by (simp add: id)
  ultimately show ?thesis
    using wf unfolding d' wf_db_rows by simp
qed

lemma delete_from_tasks_wf:
  assumes "wf_db d"
  shows "wf_db (delete_from_tasks d i uid)"
proof -
  note wf = assms[unfolded wf_db_rows]
  let ?d = "delete_from_tasks d i uid"
  have "\<forall>t \<in> set (tasks ?d). row_ok (categories ?d) t"
    using wf by (simp add: delete_from_tasks_def)
  moreover have "distinct (map t_id (tasks ?d))"
    using wf by (simp add: delete_from_tasks_def distinct_map_filter)
  moreover have "\<forall>t \<in> set (tasks ?d). t_id t < tasks_id_seq ?d"
    using wf by (simp add: delete_from_tasks_def)
  moreover have "distinct (map c_id (categories ?d))"
    using wf by (simp add: delete_from_tasks_def)
  ultimately show ?thesis
    unfolding wf_db_rows by blast
qed

lemma add_task_wf:
  assumes "wf_db (db w)"
  shows "wf_db (db (snd (add_task fromisoformat w session method form)))"
  using add_task_cases[of fromisoformat w session "method" form]
proof (elim disjE exE conjE)
  assume "snd (add_task fromisoformat w session method form) = w"
  with assms show ?thesis by simp
next
  fix uid title due res d'
  assume "insert_task (db w) (current_timestamp w) uid title (f_description form) (form_category form)
             (f_priority form) due = (res, d')"
    and "snd (add_task fromisoformat w session method form) = w\<lparr> db := d' \<rparr>"
  with assms show ?thesis
    by (simp add: insert_task_wf)
qed

lemma edit_task_wf:
  assumes "wf_db (db w)"
  shows "wf_db (db (snd (edit_task fromisoformat w session method form task_id)))"
  using edit_task_cases[of fromisoformat w session "method" form task_id]
proof (elim disjE exE conjE)
  assume "snd (edit_task fromisoformat w session method form task_id) = w"
  with assms show ?thesis by simp
next
  fix uid title due d'
  assume "update_task (db w) (current_timestamp w) task_id uid title (f_description form) (form_category form)
             (f_priority form) due = Inr d'"
    and "snd (edit_task fromisoformat w session method form task_id) = w\<lparr> db := d' \<rparr>"
  with assms show ?thesis
    by (simp add: update_task_wf)
qed

lemma toggle_task_wf:
  assumes "wf_db (db w)"
  shows "wf_db (db (snd (toggle_task w session referrer task_id)))"
  using toggle_task_cases[of w session referrer task_id]
proof (elim disjE exE conjE)
  assume "snd (toggle_task w session referrer task_id) = w"
  with assms show ?thesis by simp
next
  fix uid and t :: task
  assume "snd (toggle_task w session referrer task_id)
            = w\<lparr> db := update_completed (db w) task_id (\<not> t_completed t)
                          (if t_completed t then None else Some (datetime_now w)) \<rparr>"
  with assms show ?thesis
    by (simp add: update_completed_wf)
qed

lemma delete_task_wf:
  assumes "wf_db (db w)"
  shows "wf_db (db (snd (delete_task w session task_id)))"
  using delete_task_cases[of w session task_id]
proof (elim disjE exE conjE)
  assume "snd (delete_task w session task_id) = w"
  with assms show ?thesis by simp
next
  fix uid
  assume "snd (delete_task w session task_id) = w\<lparr> db := delete_from_tasks (db w) task_id uid \<rparr>"
  with assms show ?thesis
    by (simp add: delete_from_tasks_wf)
qed

lemma duplicate_task_wf:
  assumes "wf_db (db w)"
  shows "wf_db (db (snd (duplicate_task w session task_id)))"
  using duplicate_task_cases[of w session task_id]
proof (elim disjE exE conjE)
  assume "snd (duplicate_task w session task_id) = w"
  with assms show ?thesis by simp
next
  fix uid and t :: task and res d'
  assume "insert_task (db w) (current_timestamp w) uid (''Copy of '' @ t_title t) (t_description t)
             (t_category_id t) (t_priority t) (t_due_date t) = (res, d')"
    and "snd (duplicate_task w session task_id) = w\<lparr> db := d' \<rparr>"
  with assms show ?thesis
    by (simp add: insert_task_wf)
qed

lemma wf_db_no_tasks:
  "distinct (map c_id cs) \<Longrightarrow> wf_db \<lparr> categories = cs, tasks = [], tasks_id_seq = 1 \<rparr>"
  by (simp add: wf_db_def)

lemma completion_invariant_no_tasks:
  "completion_invariant \<lparr> categories = cs, tasks = [], tasks_id_seq = 1 \<rparr>"
  by (simp add: completion_invariant_def)

section \<open>An unreachable store\<close>



end
